theory Spec2Isabelle
  imports Main
begin

section \<open>JavaScript values used by the article store\<close>

text \<open>
  A JavaScript string is a sequence of UTF-16 code units. A code unit is modelled as a
  natural number (below 65536 for a real string; no function below relies on the bound),
  so that \<open>length\<close> counts what \<open>String.prototype.length\<close> counts and the character classes
  of the source's regular expressions are intervals of numbers. \<open>js\<close> turns an ASCII literal
  into such a string.
\<close>

type_synonym jsstring = "nat list"

definition js :: "string \<Rightarrow> jsstring" where
  "js s = map of_char s"

abbreviation dquote :: nat where "dquote \<equiv> 34"
abbreviation comma :: nat where "comma \<equiv> 44"
abbreviation newline :: nat where "newline \<equiv> 10"

text \<open>
  A JavaScript number that holds an identifier: a double whose value is a whole number,
  \<open>NaN\<close> (what \<open>parseInt\<close> returns on text without digits), or an infinity (what
  \<open>parseInt\<close> returns on more digits than a double can hold). \<open>Num i\<close> is the double whose
  value is the integer \<open>i\<close>; the functions below build it only for an \<open>i\<close> that a double
  holds exactly. Negative zero prints, compares and tests like zero in every operation of
  the store and is not told apart from it. Fractions are not modelled: \<open>parseInt\<close> and
  the store's \<open>maxId + 1\<close> produce none.
\<close>

datatype jsnumber = NaN | Num int | PosInfinity | NegInfinity

text \<open>The errors the source throws: \<open>new Error(message)\<close>, and the engine's \<open>TypeError\<close>
  for a property read on \<open>undefined\<close> or \<open>null\<close>.\<close>

datatype error = Error jsstring | TypeError

text \<open>
  Rounding a natural number to the nearest double (53 significant bits, ties to the even
  significand). \<open>exponentOf m\<close> is the number of low bits a double of the magnitude of \<open>m\<close>
  cannot hold: \<open>0\<close> below \<open>2^53\<close>, and otherwise the \<open>e\<close> with \<open>2^(52+e) \<le> m < 2^(53+e)\<close>.
\<close>

function exponentOf :: "nat \<Rightarrow> nat" where
  "exponentOf m = (if m < 2 ^ 53 then 0 else Suc (exponentOf (m div 2)))"
  by pat_completeness auto
termination
  by (relation "measure id") auto

declare exponentOf.simps [simp del]

definition roundToDouble :: "nat \<Rightarrow> nat" where
  "roundToDouble m =
     (let e = exponentOf m; q = m div 2 ^ e; r = m mod 2 ^ e
      in if 2 * r < 2 ^ e \<or> (2 * r = 2 ^ e \<and> even q) then q * 2 ^ e else (q + 1) * 2 ^ e)"

text \<open>The Number value of a mathematical integer: the nearest double, and an infinity
  when that rounding reaches \<open>2^1024\<close>.\<close>

definition doubleLimit :: nat where
  "doubleLimit = 2 ^ 1024"

definition toNumber :: "int \<Rightarrow> jsnumber" where
  "toNumber i =
     (let m = roundToDouble (nat \<bar>i\<bar>)
      in if doubleLimit \<le> m then (if i < 0 then NegInfinity else PosInfinity)
         else Num (if i < 0 then - int m else int m))"

text \<open>The decimal digits of a natural number, and of an integer with its sign (used for
  counters and status codes, which are small).\<close>

function digits :: "nat \<Rightarrow> jsstring" where
  "digits n = (if n < 10 then [48 + n] else digits (n div 10) @ [48 + n mod 10])"
  by pat_completeness auto
termination
  by (relation "measure id") auto

declare digits.simps [simp del]

definition showInt :: "int \<Rightarrow> jsstring" where
  "showInt i = (if i < 0 then 45 # digits (nat (- i)) else digits (nat i))"

text \<open>
  \<open>Number::toString\<close> for a whole double \<open>v\<close>, which \<open>Array.prototype.join\<close>, \<open>String\<close> and
  template literals apply. The digits printed are those of the decimal number with the
  fewest significant digits that still rounds to \<open>v\<close>, and among these the one nearest to
  \<open>v\<close> (the even one on a tie). \<open>shortestDecimal v u\<close> looks for it among the multiples of
  the power of ten \<open>u\<close>, from the greatest power of ten not above \<open>v\<close> downwards: the
  candidates are the multiple of \<open>u\<close> just below \<open>v\<close> and the next one. With at most 21
  digits the number is printed in full; from \<open>10^21\<close> on it is printed in exponent
  notation, \<open>d.ddde+n\<close>.
\<close>

function shortestDecimal :: "nat \<Rightarrow> nat \<Rightarrow> nat" where
  "shortestDecimal v u =
     (if u \<le> 1 then v
      else let lo = (v div u) * u; hi = lo + u
           in if roundToDouble lo = v
                 \<and> (roundToDouble hi \<noteq> v \<or> v - lo < hi - v
                     \<or> (v - lo = hi - v \<and> even (v div u)))
              then lo
              else if roundToDouble hi = v then hi
              else shortestDecimal v (u div 10))"
  by pat_completeness auto
termination
  by (relation "measure snd") auto

declare shortestDecimal.simps [simp del]

definition dropTrailingZeros :: "jsstring \<Rightarrow> jsstring" where
  "dropTrailingZeros ds = rev (dropWhile (\<lambda>c. c = 48) (rev ds))"

definition showDouble :: "nat \<Rightarrow> jsstring" where
  "showDouble v =
     (let ds = digits (shortestDecimal v (10 ^ (length (digits v) - 1)));
          n = length ds
      in if n \<le> 21 then ds
         else (let s = dropTrailingZeros ds
               in hd s # (if tl s = [] then [] else 46 # tl s) @ js ''e+'' @ digits (n - 1)))"

fun numberToString :: "jsnumber \<Rightarrow> jsstring" where
  "numberToString NaN = js ''NaN''"
| "numberToString PosInfinity = js ''Infinity''"
| "numberToString NegInfinity = js ''-Infinity''"
| "numberToString (Num i) = (if i < 0 then 45 # showDouble (nat (- i)) else showDouble (nat i))"

text \<open>White space as \<open>String.prototype.trim\<close> and \<open>parseInt\<close> strip it: the code points of
  WhiteSpace and LineTerminator.\<close>

definition isWhiteSpace :: "nat \<Rightarrow> bool" where
  "isWhiteSpace c \<longleftrightarrow>
     c = 9 \<or> c = 10 \<or> c = 11 \<or> c = 12 \<or> c = 13 \<or> c = 32 \<or> c = 160 \<or> c = 5760 \<or>
     (8192 \<le> c \<and> c \<le> 8202) \<or> c = 8232 \<or> c = 8233 \<or> c = 8239 \<or> c = 8287 \<or>
     c = 12288 \<or> c = 65279"

definition trim :: "jsstring \<Rightarrow> jsstring" where
  "trim s = rev (dropWhile isWhiteSpace (rev (dropWhile isWhiteSpace s)))"

definition isDigit :: "nat \<Rightarrow> bool" where
  "isDigit c \<longleftrightarrow> 48 \<le> c \<and> c \<le> 57"

definition digitsValue :: "jsstring \<Rightarrow> nat" where
  "digitsValue ds = foldl (\<lambda>a d. 10 * a + (d - 48)) 0 ds"

text \<open>\<open>parseInt(s, 10)\<close>: leading white space, an optional sign, then the longest run of
  decimal digits; \<open>NaN\<close> when that run is empty, and otherwise the Number value of the
  integer the digits denote.\<close>

definition parseInt :: "jsstring \<Rightarrow> jsnumber" where
  "parseInt s =
     (let t = dropWhile isWhiteSpace s;
          neg = (t \<noteq> [] \<and> hd t = 45);
          u = (if t \<noteq> [] \<and> (hd t = 45 \<or> hd t = 43) then tl t else t);
          ds = takeWhile isDigit u
      in if ds = [] then NaN
         else toNumber (if neg then - int (digitsValue ds) else int (digitsValue ds)))"

text \<open>\<open>s.split('\n')\<close>: the pieces between line feeds; one (empty) piece for the empty
  string.\<close>

fun splitLines :: "jsstring \<Rightarrow> jsstring list" where
  "splitLines [] = [[]]"
| "splitLines (c # cs) =
     (if c = newline then [] # splitLines cs
      else (case splitLines cs of l # ls \<Rightarrow> (c # l) # ls | [] \<Rightarrow> [[c]]))"

text \<open>\<open>parts.join(sep)\<close>.\<close>

fun joinWith :: "jsstring \<Rightarrow> jsstring list \<Rightarrow> jsstring" where
  "joinWith sep [] = []"
| "joinWith sep [x] = x"
| "joinWith sep (x # y # ys) = x @ sep @ joinWith sep (y # ys)"

text \<open>\<open>xs.findIndex(p)\<close>; \<open>None\<close> stands for \<open>-1\<close>.\<close>

fun findIndex :: "('a \<Rightarrow> bool) \<Rightarrow> 'a list \<Rightarrow> nat option" where
  "findIndex p [] = None"
| "findIndex p (x # xs) =
     (if p x then Some 0 else map_option Suc (findIndex p xs))"

text \<open>\<open>xs.map(f)\<close> for an \<open>f\<close> that may throw: the first error ends the map.\<close>

fun mapThrowing :: "('a \<Rightarrow> error + 'b) \<Rightarrow> 'a list \<Rightarrow> error + 'b list" where
  "mapThrowing f [] = Inr []"
| "mapThrowing f (x # xs) =
     (case f x of
        Inl e \<Rightarrow> Inl e
      | Inr y \<Rightarrow> (case mapThrowing f xs of Inl e \<Rightarrow> Inl e | Inr ys \<Rightarrow> Inr (y # ys)))"


section \<open>The records of \<open>types/article.ts\<close>\<close>

text \<open>\<open>PersonaData\<close> and \<open>SeoKeywordData\<close>; both have a \<open>Category\<close>, written
  \<open>PersonaData.Category\<close> and \<open>SeoKeywordData.Category\<close> below.\<close>

record PersonaData =
  Category :: jsstring
  Persona_Detail :: jsstring
  Worry_Description :: jsstring
  Tone_Instruction :: jsstring
  Context_Scenario :: jsstring

record SeoKeywordData =
  ID :: jsstring
  Category :: jsstring
  Main_Keyword :: jsstring
  Sub_Keywords :: jsstring
  User_Intent :: jsstring
  Title_Idea :: jsstring

record ArticleGenerationInput =
  persona :: PersonaData
  seoKeyword :: SeoKeywordData

text \<open>A value \<open>JSON.parse\<close> returns (numbers restricted to integers).\<close>

datatype json =
  JNull | JBool bool | JNumber int | JString jsstring | JArray "json list"
  | JObject "(jsstring \<times> json) list"

text \<open>\<open>ArticleGenerationResponse\<close> of \<open>articleGenerator.ts\<close>. The fields are typed
  \<open>string\<close>, but hold whatever the parsed reply held.\<close>

record ArticleGenerationResponse =
  title :: json
  body :: json
  slug :: json

text \<open>\<open>ArticleCategory\<close> of \<open>categoryMapper.ts\<close>, an entry of the category catalog.\<close>

record ArticleCategory =
  id_field :: int
  name :: jsstring
  slug :: jsstring

section \<open>The article record and the file system\<close>

text \<open>
  \<open>ArticleData\<close> of \<open>types/article.ts\<close>. \<open>id\<close> is optional (\<open>None\<close> is \<open>undefined\<close>).
  \<open>category_id\<close> is \<open>string | number\<close>. The parser below builds records from \<open>fields[k]\<close>,
  which is \<open>undefined\<close> for a row with too few columns, so the text fields it fills carry
  that possibility: \<open>None\<close> is \<open>undefined\<close>. \<open>status\<close> is any string at run time (the parser
  casts without checking).
\<close>

datatype categoryId = CatUndefined | CatString jsstring | CatNumber jsnumber

record ArticleData =
  id_field :: "jsnumber option"
  category_id :: categoryId
  title :: "jsstring option"
  body :: "jsstring option"
  slug :: "jsstring option"
  status :: jsstring
  meta_title :: "jsstring option"
  meta_description :: "jsstring option"
  api_posted :: bool

text \<open>\<open>Partial<ArticleData>\<close>: every key may be absent (\<open>None\<close>); a key that is present
  carries a value of the field's type.\<close>

record ArticleUpdates =
  upd_id :: "jsnumber option"
  upd_category_id :: "categoryId option"
  upd_title :: "jsstring option"
  upd_body :: "jsstring option"
  upd_slug :: "jsstring option"
  upd_status :: "jsstring option"
  upd_meta_title :: "jsstring option"
  upd_meta_description :: "jsstring option"
  upd_api_posted :: "bool option"

text \<open>The files the store touches: a path has a content or does not exist.\<close>

type_synonym filesystem = "string \<Rightarrow> jsstring option"

text \<open>Truthiness of \<open>article.id\<close>: \<open>undefined\<close>, \<open>NaN\<close> and \<open>0\<close> are falsy.\<close>

fun truthyId :: "jsnumber option \<Rightarrow> bool" where
  "truthyId None = False"
| "truthyId (Some NaN) = False"
| "truthyId (Some (Num n)) = (n \<noteq> 0)"
| "truthyId (Some PosInfinity) = True"
| "truthyId (Some NegInfinity) = True"

text \<open>\<open>article.id === articleId\<close>: \<open>NaN\<close> equals nothing.\<close>

fun strictEqId :: "jsnumber option \<Rightarrow> jsnumber \<Rightarrow> bool" where
  "strictEqId (Some (Num a)) (Num b) = (a = b)"
| "strictEqId (Some PosInfinity) PosInfinity = True"
| "strictEqId (Some NegInfinity) NegInfinity = True"
| "strictEqId _ _ = False"

text \<open>\<open>a > b\<close> on numbers: false when either is \<open>NaN\<close>.\<close>

fun greaterThan :: "jsnumber \<Rightarrow> jsnumber \<Rightarrow> bool" where
  "greaterThan (Num a) (Num b) = (a > b)"
| "greaterThan (Num a) NegInfinity = True"
| "greaterThan PosInfinity (Num b) = True"
| "greaterThan PosInfinity NegInfinity = True"
| "greaterThan _ _ = False"

text \<open>\<open>x + 1\<close> on numbers: the sum is rounded to a double.\<close>

fun plusOne :: "jsnumber \<Rightarrow> jsnumber" where
  "plusOne (Num n) = toNumber (n + 1)"
| "plusOne x = x"


section \<open>The article store (\<open>util/csvWriter.ts\<close>)\<close>

text \<open>\<open>escapeCSVField\<close>. \<open>field.includes\<close> on \<open>undefined\<close> throws a \<open>TypeError\<close>.\<close>

definition doubleQuotes :: "jsstring \<Rightarrow> jsstring" where
  "doubleQuotes f = concat (map (\<lambda>c. if c = dquote then [dquote, dquote] else [c]) f)"

fun escapeCSVField :: "jsstring option \<Rightarrow> error + jsstring" where
  "escapeCSVField None = Inl TypeError"
| "escapeCSVField (Some f) =
     (if comma \<in> set f \<or> newline \<in> set f \<or> dquote \<in> set f
      then Inr (dquote # doubleQuotes f @ [dquote])
      else Inr f)"

text \<open>What \<open>Array.prototype.join\<close> prints for the cells written without escaping.\<close>

fun categoryCell :: "categoryId \<Rightarrow> jsstring" where
  "categoryCell CatUndefined = []"
| "categoryCell (CatString s) = s"
| "categoryCell (CatNumber n) = numberToString n"

fun optCell :: "jsstring option \<Rightarrow> jsstring" where
  "optCell None = []"
| "optCell (Some s) = s"

fun idCell :: "jsnumber option \<Rightarrow> jsstring" where
  "idCell None = []"
| "idCell (Some n) = numberToString n"

definition flagCell :: "bool \<Rightarrow> jsstring" where
  "flagCell b = (if b then js ''1'' else js ''0'')"

text \<open>The row both writers build: \<open>[id, category_id, escapeCSVField(title),
  escapeCSVField(body), slug, status, escapeCSVField(meta_title),
  escapeCSVField(meta_description), api_posted ? '1' : '0'].join(',')\<close>. The first cell is
  the argument: \<open>article.id\<close> in \<open>appendArticleToCSV\<close>, \<open>article.id || ''\<close> in
  \<open>updateArticleInCSV\<close>.\<close>

definition csvRow :: "jsstring \<Rightarrow> ArticleData \<Rightarrow> error + jsstring" where
  "csvRow idc a =
     (case (escapeCSVField (title a), escapeCSVField (body a),
            escapeCSVField (meta_title a), escapeCSVField (meta_description a)) of
        (Inr t, Inr b, Inr mt, Inr md) \<Rightarrow>
          Inr (joinWith [comma]
                 [idc, categoryCell (category_id a), t, b, optCell (slug a), status a,
                  mt, md, flagCell (api_posted a)])
      | _ \<Rightarrow> Inl TypeError)"

definition appendLine :: "ArticleData \<Rightarrow> error + jsstring" where
  "appendLine a = csvRow (idCell (id_field a)) a"

definition updateLine :: "ArticleData \<Rightarrow> error + jsstring" where
  "updateLine a = csvRow (if truthyId (id_field a) then idCell (id_field a) else []) a"

text \<open>The loop of \<open>parseCSVLine\<close> over the characters of a row: \<open>insideQuotes\<close>,
  \<open>currentField\<close>, and the characters from index \<open>i\<close> on. It returns the fields pushed from
  here on, the last one at the end of the row.\<close>

fun csvFields :: "bool \<Rightarrow> jsstring \<Rightarrow> jsstring \<Rightarrow> jsstring list" where
  "csvFields insideQuotes currentField [] = [currentField]"
| "csvFields insideQuotes currentField [c] =
     (if c = dquote then csvFields (\<not> insideQuotes) currentField []
      else if c = comma \<and> \<not> insideQuotes then currentField # csvFields insideQuotes [] []
      else csvFields insideQuotes (currentField @ [c]) [])"
| "csvFields insideQuotes currentField (c # nextChar # rest) =
     (if c = dquote then
        (if insideQuotes \<and> nextChar = dquote
         then csvFields insideQuotes (currentField @ [dquote]) rest
         else csvFields (\<not> insideQuotes) currentField (nextChar # rest))
      else if c = comma \<and> \<not> insideQuotes
        then currentField # csvFields insideQuotes [] (nextChar # rest)
      else csvFields insideQuotes (currentField @ [c]) (nextChar # rest))"

text \<open>\<open>fields[k]\<close>: \<open>undefined\<close> past the end (\<open>cells\<close> is the source's \<open>fields\<close>).\<close>

definition fieldAt :: "jsstring list \<Rightarrow> nat \<Rightarrow> jsstring option" where
  "fieldAt cells k = (if k < length cells then Some (cells ! k) else None)"

definition parseCSVLine :: "jsstring \<Rightarrow> ArticleData" where
  "parseCSVLine line =
     (let cells = csvFields False [] line in
      \<lparr> id_field = (case fieldAt cells 0 of
                      Some f \<Rightarrow> if f \<noteq> [] then Some (parseInt f) else None
                    | None \<Rightarrow> None),
        category_id = (case fieldAt cells 1 of Some f \<Rightarrow> CatString f | None \<Rightarrow> CatUndefined),
        title = fieldAt cells 2,
        body = fieldAt cells 3,
        slug = fieldAt cells 4,
        status = (case fieldAt cells 5 of
                    Some f \<Rightarrow> if f \<noteq> [] then f else js ''draft''
                  | None \<Rightarrow> js ''draft''),
        meta_title = fieldAt cells 6,
        meta_description = fieldAt cells 7,
        api_posted = (fieldAt cells 8 = Some (js ''1'')) \<rparr>)"

text \<open>The loop of \<open>readArticlesFromCSV\<close> that joins physical lines into records:
  \<open>currentRecord\<close> and the lines still to read. A record is complete when it holds an even
  number of double quotes; what is left at the end is pushed when it is not empty.\<close>

definition quoteCount :: "jsstring \<Rightarrow> nat" where
  "quoteCount s = length (filter (\<lambda>c. c = dquote) s)"

fun joinRecords :: "jsstring \<Rightarrow> jsstring list \<Rightarrow> jsstring list" where
  "joinRecords currentRecord [] = (if currentRecord \<noteq> [] then [currentRecord] else [])"
| "joinRecords currentRecord (line # lines) =
     (let cur = (if currentRecord \<noteq> [] then currentRecord @ [newline] else currentRecord) @ line
      in if quoteCount cur mod 2 \<noteq> 0 then joinRecords cur lines
         else cur # joinRecords [] lines)"

definition readArticlesFromCSV :: "filesystem \<Rightarrow> string \<Rightarrow> ArticleData list" where
  "readArticlesFromCSV fs filePath =
     (case fs filePath of
        None \<Rightarrow> []
      | Some content \<Rightarrow>
          (let lines = splitLines (trim content) in
           if length lines \<le> 1 then []
           else map parseCSVLine (joinRecords [] (tl lines))))"

text \<open>\<open>existingArticles.reduce((max, a) => (a.id && a.id > max ? a.id : max), 0)\<close>.\<close>

definition maxId :: "ArticleData list \<Rightarrow> jsnumber" where
  "maxId existingArticles =
     foldl (\<lambda>mx a. case id_field a of
                      Some n \<Rightarrow> if truthyId (Some n) \<and> greaterThan n mx then n else mx
                    | None \<Rightarrow> mx)
       (Num 0) existingArticles"

text \<open>\<open>fs.appendFileSync\<close> creates the file when it does not exist.\<close>

definition appendFile :: "filesystem \<Rightarrow> string \<Rightarrow> jsstring \<Rightarrow> filesystem" where
  "appendFile fs filePath text =
     fs(filePath \<mapsto> (case fs filePath of None \<Rightarrow> [] | Some c \<Rightarrow> c) @ text)"

text \<open>\<open>appendArticleToCSV\<close>: the record returned (or the error thrown), and the file
  system afterwards. Nothing is written when building the row throws.\<close>

definition appendArticleToCSV ::
  "filesystem \<Rightarrow> string \<Rightarrow> ArticleData \<Rightarrow> (error + ArticleData) \<times> filesystem" where
  "appendArticleToCSV fs filePath article =
     (let article' =
            (if \<not> truthyId (id_field article)
             then article\<lparr>id_field := Some (plusOne (maxId (readArticlesFromCSV fs filePath)))\<rparr>
             else article)
      in case appendLine article' of
           Inl e \<Rightarrow> (Inl e, fs)
         | Inr csvLine \<Rightarrow> (Inr article', appendFile fs filePath (csvLine @ [newline])))"

text \<open>\<open>{ ...article, ...updates }\<close>.\<close>

definition applyUpdates :: "ArticleData \<Rightarrow> ArticleUpdates \<Rightarrow> ArticleData" where
  "applyUpdates a u =
     \<lparr> id_field = (case upd_id u of None \<Rightarrow> id_field a | Some n \<Rightarrow> Some n),
       category_id = (case upd_category_id u of None \<Rightarrow> category_id a | Some c \<Rightarrow> c),
       title = (case upd_title u of None \<Rightarrow> title a | Some s \<Rightarrow> Some s),
       body = (case upd_body u of None \<Rightarrow> body a | Some s \<Rightarrow> Some s),
       slug = (case upd_slug u of None \<Rightarrow> slug a | Some s \<Rightarrow> Some s),
       status = (case upd_status u of None \<Rightarrow> status a | Some s \<Rightarrow> s),
       meta_title = (case upd_meta_title u of None \<Rightarrow> meta_title a | Some s \<Rightarrow> Some s),
       meta_description =
         (case upd_meta_description u of None \<Rightarrow> meta_description a | Some s \<Rightarrow> Some s),
       api_posted = (case upd_api_posted u of None \<Rightarrow> api_posted a | Some b \<Rightarrow> b) \<rparr>"

definition csvHeader :: jsstring where
  "csvHeader =
     js ''id,category_id,title,body,slug,status,meta_title,meta_description,api_posted''
     @ [newline]"

text \<open>The tail of \<open>updateArticleInCSV\<close>: the whole file rebuilt from the records in
  memory, \<open>header + lines.join('\n') + '\n'\<close>.\<close>

definition rewriteCSV :: "ArticleData list \<Rightarrow> error + jsstring" where
  "rewriteCSV articles =
     (case mapThrowing updateLine articles of
        Inl e \<Rightarrow> Inl e
      | Inr lines \<Rightarrow> Inr (csvHeader @ joinWith [newline] lines @ [newline]))"

definition notFoundMessage :: "jsnumber \<Rightarrow> jsstring" where
  "notFoundMessage articleId =
     js ''Article with id '' @ numberToString articleId @ js '' not found in CSV''"

text \<open>\<open>updateArticleInCSV\<close>: the error thrown (or normal return), and the file system
  afterwards. Both throws come before \<open>fs.writeFileSync\<close>.\<close>

definition updateArticleInCSV ::
  "filesystem \<Rightarrow> string \<Rightarrow> jsnumber \<Rightarrow> ArticleUpdates \<Rightarrow> (error + unit) \<times> filesystem" where
  "updateArticleInCSV fs filePath articleId updates =
     (let articles = readArticlesFromCSV fs filePath in
      case findIndex (\<lambda>article. strictEqId (id_field article) articleId) articles of
        None \<Rightarrow> (Inl (Error (notFoundMessage articleId)), fs)
      | Some index \<Rightarrow>
          (case rewriteCSV (articles[index := applyUpdates (articles ! index) updates]) of
             Inl e \<Rightarrow> (Inl e, fs)
           | Inr content \<Rightarrow> (Inr (), fs(filePath \<mapsto> content))))"


section \<open>The matcher (\<open>util/csvReader.ts\<close>)\<close>

text \<open>\<open>matchPersonaWithKeywords\<close>: for each keyword in turn, \<open>personas.find\<close> returns the first
  persona of the keyword's category, and a pair is pushed when there is one.\<close>

fun matchPersonaWithKeywords ::
  "PersonaData list \<Rightarrow> SeoKeywordData list \<Rightarrow> (PersonaData \<times> SeoKeywordData) list" where
  "matchPersonaWithKeywords personas [] = []"
| "matchPersonaWithKeywords personas (keyword # keywords) =
     (case find (\<lambda>p. PersonaData.Category p = SeoKeywordData.Category keyword) personas of
        Some matchingPersona \<Rightarrow>
          (matchingPersona, keyword) # matchPersonaWithKeywords personas keywords
      | None \<Rightarrow> matchPersonaWithKeywords personas keywords)"


section \<open>The category resolver (\<open>util/categoryMapper.ts\<close>)\<close>

definition PERSONA_TO_CATEGORY_NAME :: "(jsstring \<times> jsstring) list" where
  "PERSONA_TO_CATEGORY_NAME =
     [([0x73fe, 0x5f79, 0x65bd, 0x8a2d, 0x4ecb, 0x8b77, 0x58eb],
       [0x304a, 0x4ed5, 0x4e8b, 0x306e, 0x76f8, 0x8ac7]),
      ([0x6f5c, 0x5728, 0x6709, 0x8cc7, 0x683c, 0x8005],
       [0x4ecb, 0x8b77, 0x8cc7, 0x683c]),
      ([0x53ce, 0x5165, 0x30fb, 0x6761, 0x4ef6, 0x91cd, 0x8996],
       [0x8a2a, 0x554f, 0x4ecb, 0x8b77])]"

definition categoryNotFoundMessage :: "jsstring \<Rightarrow> jsstring \<Rightarrow> jsstring" where
  "categoryNotFoundMessage categoryName personaCategory =
     js ''Category name \"'' @ categoryName
     @ js ''\" not found in ARTICLE_CATEGORIES.json for persona \"'' @ personaCategory
     @ js ''\"''"

text \<open>\<open>getPersonaCategoryMapping\<close>. Its argument is what \<open>loadArticleCategories\<close> gave: the
  catalog, or the error it threw (file missing, text that is not JSON). The mapping object
  is the list of its own properties in insertion order.\<close>

definition getPersonaCategoryMapping ::
  "error + ArticleCategory list \<Rightarrow> error + (jsstring \<times> int) list" where
  "getPersonaCategoryMapping loaded =
     (case loaded of
        Inl e \<Rightarrow> Inl e
      | Inr categories \<Rightarrow>
          mapThrowing
            (\<lambda>(personaCategory, categoryName).
               case find (\<lambda>cat. ArticleCategory.name cat = categoryName) categories of
                 None \<Rightarrow> Inl (Error (categoryNotFoundMessage categoryName personaCategory))
               | Some category \<Rightarrow> Inr (personaCategory, ArticleCategory.id_field category))
            PERSONA_TO_CATEGORY_NAME)"

text \<open>The property names every object inherits from \<open>Object.prototype\<close>: the \<open>in\<close>
  operator finds them in the mapping object too.\<close>

definition objectPrototypeKeys :: "jsstring list" where
  "objectPrototypeKeys =
     map js [''constructor'', ''__defineGetter__'', ''__defineSetter__'', ''hasOwnProperty'',
             ''__lookupGetter__'', ''__lookupSetter__'', ''isPrototypeOf'',
             ''propertyIsEnumerable'', ''toString'', ''valueOf'', ''__proto__'',
             ''toLocaleString'']"

text \<open>What \<open>mapping[personaCategory]\<close> is: a catalog id, or the inherited member of that
  name (a function, or the prototype itself), which is not a number.\<close>

datatype mappingValue = CategoryNumber int | InheritedMember jsstring

definition personaNotFoundMessage :: "jsstring \<Rightarrow> jsstring list \<Rightarrow> jsstring" where
  "personaNotFoundMessage personaCategory keys =
     js ''Persona category \"'' @ personaCategory
     @ js ''\" not found. Available categories: '' @ joinWith (js '', '') keys"

definition getCategoryIdFromPersona ::
  "error + ArticleCategory list \<Rightarrow> jsstring \<Rightarrow> error + mappingValue" where
  "getCategoryIdFromPersona loaded personaCategory =
     (case getPersonaCategoryMapping loaded of
        Inl e \<Rightarrow> Inl e
      | Inr mapping \<Rightarrow>
          (case map_of mapping personaCategory of
             Some n \<Rightarrow> Inr (CategoryNumber n)
           | None \<Rightarrow>
               if personaCategory \<in> set objectPrototypeKeys
               then Inr (InheritedMember personaCategory)
               else Inl (Error (personaNotFoundMessage personaCategory (map fst mapping)))))"


section \<open>The generation client (\<open>services/article/articleGenerator.ts\<close>)\<close>

text \<open>\<open>generatedText.match(/\{[\s\S]*\}/)\<close>: the match starts at the first \<open>{\<close> and, the
  star being greedy, ends at the last \<open>}\<close> after it.\<close>

abbreviation lbrace :: nat where "lbrace \<equiv> 123"
abbreviation rbrace :: nat where "rbrace \<equiv> 125"

definition jsonMatch :: "jsstring \<Rightarrow> jsstring option" where
  "jsonMatch generatedText =
     (let fromBrace = dropWhile (\<lambda>c. c \<noteq> lbrace) generatedText in
      if rbrace \<in> set fromBrace
      then Some (rev (dropWhile (\<lambda>c. c \<noteq> rbrace) (rev fromBrace)))
      else None)"

text \<open>\<open>generateSlug\<close>. \<open>toLowerCase\<close> is modelled on the code units whose lower case
  decides the result: the ASCII capitals, U+212A (Kelvin sign, lower case \<open>k\<close>) and U+0130
  (lower case \<open>i\<close> followed by U+0307). No other code unit has a lower case inside the
  character class of the first \<open>replace\<close>, and none inside the class changes; so leaving the
  others as they are gives the slug the source gives.\<close>

definition toLowerCase :: "jsstring \<Rightarrow> jsstring" where
  "toLowerCase s =
     concat (map (\<lambda>c. if 65 \<le> c \<and> c \<le> 90 then [c + 32]
                      else if c = 0x212A then [107]
                      else if c = 0x0130 then [105, 0x0307]
                      else [c]) s)"

definition slugChar :: "nat \<Rightarrow> bool" where
  "slugChar c \<longleftrightarrow>
     (97 \<le> c \<and> c \<le> 122) \<or> (48 \<le> c \<and> c \<le> 57) \<or> (0x3040 \<le> c \<and> c \<le> 0x309f) \<or>
     (0x30a0 \<le> c \<and> c \<le> 0x30ff) \<or> (0x4e00 \<le> c \<and> c \<le> 0x9faf)"

text \<open>\<open>.replace(/[^a-z0-9...]+/g, '-')\<close>: every maximal run of other characters becomes
  one hyphen. \<open>inRun\<close> says that the run the scan is in has its hyphen already.\<close>

fun replaceRuns :: "bool \<Rightarrow> jsstring \<Rightarrow> jsstring" where
  "replaceRuns inRun [] = []"
| "replaceRuns inRun (c # cs) =
     (if slugChar c then c # replaceRuns False cs
      else if inRun then replaceRuns True cs
      else 45 # replaceRuns True cs)"

text \<open>\<open>.replace(/^-|-$/g, '')\<close>: one hyphen off the front, then one off the end.\<close>

definition stripHyphens :: "jsstring \<Rightarrow> jsstring" where
  "stripHyphens s =
     (let t = (if s \<noteq> [] \<and> hd s = 45 then tl s else s)
      in if t \<noteq> [] \<and> last t = 45 then butlast t else t)"

definition generateSlug :: "jsstring \<Rightarrow> jsstring" where
  "generateSlug t = take 100 (stripHyphens (replaceRuns False (toLowerCase t)))"

text \<open>Truthiness of a property of the parsed object (\<open>None\<close>: the property is absent).\<close>

fun truthy :: "json option \<Rightarrow> bool" where
  "truthy None = False"
| "truthy (Some JNull) = False"
| "truthy (Some (JBool b)) = b"
| "truthy (Some (JNumber n)) = (n \<noteq> 0)"
| "truthy (Some (JString s)) = (s \<noteq> [])"
| "truthy (Some (JArray xs)) = True"
| "truthy (Some (JObject kvs)) = True"

text \<open>What \<open>axios.post\<close> to the model service did: resolved with \<open>data.response\<close>, or
  rejected.\<close>

datatype httpOutcome = HttpResolved jsstring | HttpRejected error

text \<open>\<open>generateArticleDraft\<close>, from the outcome of the request on. \<open>JSON_parse\<close> is the
  engine's \<open>JSON.parse\<close> on text that starts with \<open>{\<close>: the properties of the object, or the
  message of the \<open>SyntaxError\<close>. The \<open>catch\<close> of the source logs and rethrows, so every
  error leaves as it was thrown.\<close>

definition generateArticleDraft ::
  "(jsstring \<Rightarrow> jsstring + (jsstring \<rightharpoonup> json)) \<Rightarrow> httpOutcome
     \<Rightarrow> error + ArticleGenerationResponse" where
  "generateArticleDraft JSON_parse outcome =
     (case outcome of
        HttpRejected e \<Rightarrow> Inl e
      | HttpResolved generatedText \<Rightarrow>
          (case jsonMatch generatedText of
             None \<Rightarrow> Inl (Error (js ''Failed to parse JSON from model response''))
           | Some matched \<Rightarrow>
               (case JSON_parse matched of
                  Inl parseError \<Rightarrow> Inl (Error (js ''Failed to parse JSON: '' @ parseError))
                | Inr parsed \<Rightarrow>
                    (case (parsed (js ''title''), parsed (js ''body'')) of
                       (Some t, Some b) \<Rightarrow>
                         if \<not> truthy (Some t) \<or> \<not> truthy (Some b)
                         then Inl (Error (js
                            ''Generated article is missing required fields (title or body)''))
                         else if truthy (parsed (js ''slug''))
                         then (case parsed (js ''slug'') of
                                 Some s \<Rightarrow>
                                   Inr \<lparr>ArticleGenerationResponse.title = t,
                                        ArticleGenerationResponse.body = b,
                                        ArticleGenerationResponse.slug = s\<rparr>
                               | None \<Rightarrow> Inl TypeError)
                         else (case t of
                                 JString titleText \<Rightarrow>
                                   Inr \<lparr>ArticleGenerationResponse.title = t,
                                        ArticleGenerationResponse.body = b,
                                        ArticleGenerationResponse.slug =
                                          JString (generateSlug titleText)\<rparr>
                               | _ \<Rightarrow> Inl TypeError)
                     | _ \<Rightarrow> Inl (Error (js
                            ''Generated article is missing required fields (title or body)''))))))"


section \<open>The batch driver (\<open>services/article/articlePipeline.ts\<close>)\<close>

text \<open>What \<open>generateMultipleArticles\<close> does that can be observed: lines given to
  \<open>outputConsole\<close>, calls of \<open>generateArticle\<close>, and calls of \<open>sleep\<close>.\<close>

datatype logLevel = Info | Success | Warn | ErrorLevel

datatype action = Log logLevel jsstring | CallGenerate ArticleGenerationInput | Sleep nat

text \<open>The \<open>for\<close> loop, from index \<open>i\<close> on; \<open>n\<close> is \<open>inputs.length\<close>. \<open>generateArticle i input\<close> is
  the outcome of the call made at index \<open>i\<close>: the article, or the message of what it
  threw. \<open>sleep(2000)\<close> stands in the \<open>try\<close> block after \<open>articles.push\<close>.\<close>

fun generateLoop ::
  "(nat \<Rightarrow> ArticleGenerationInput \<Rightarrow> jsstring + ArticleData) \<Rightarrow> nat \<Rightarrow> nat
     \<Rightarrow> ArticleGenerationInput list \<Rightarrow> ArticleData list \<times> action list" where
  "generateLoop generateArticle n i [] = ([], [])"
| "generateLoop generateArticle n i (input # rest) =
     (let (articles, acts) = generateLoop generateArticle n (i + 1) rest;
          start = [Log Info (newline # js ''['' @ showInt (int (i + 1)) @ js ''/''
                     @ showInt (int n) @ [0x5d, 0x20, 0x51e6, 0x7406, 0x4e2d, 0x2e, 0x2e, 0x2e]),
                   CallGenerate input]
      in case generateArticle i input of
           Inr article \<Rightarrow>
             (article # articles, start @ (if i < n - 1 then [Sleep 2000] else []) @ acts)
         | Inl errorMessage \<Rightarrow>
             (articles,
              start @ [Log ErrorLevel
                         ([0x8a18, 0x4e8b, 0x751f, 0x6210, 0x306b, 0x5931, 0x6557, 0x3a, 0x20]
                          @ errorMessage)] @ acts))"

definition generateMultipleArticles ::
  "(nat \<Rightarrow> ArticleGenerationInput \<Rightarrow> jsstring + ArticleData) \<Rightarrow> ArticleGenerationInput list
     \<Rightarrow> ArticleData list \<times> action list" where
  "generateMultipleArticles generateArticle inputs =
     (let n = length inputs;
          (articles, acts) = generateLoop generateArticle n 0 inputs
      in (articles,
          [Log Info (showInt (int n)
             @ [0x4ef6, 0x306e, 0x8a18, 0x4e8b, 0x3092, 0x751f, 0x6210, 0x3057, 0x307e, 0x3059])]
          @ acts
          @ [Log Success (newline # [0x5168, 0x4f53, 0x5b8c, 0x4e86, 0x3a, 0x20]
               @ showInt (int (length articles)) @ js ''/'' @ showInt (int n)
               @ [0x4ef6, 0x306e, 0x8a18, 0x4e8b, 0x3092, 0x751f, 0x6210, 0x3057, 0x307e,
                  0x3057, 0x305f])]))"


section \<open>The publisher (\<open>services/laravel/articlePublisher.ts\<close>)\<close>

text \<open>What the publisher reads from the configuration: \<open>config.laravel.endpoints.store\<close>,
  \<open>config.laravel.apiToken\<close> (empty when unset) and \<open>isLaravelMockMode()\<close>.\<close>

record LaravelConfig =
  store :: jsstring
  apiToken :: jsstring
  mockMode :: bool

record ArticlePublishResponse =
  success :: bool
  articleId :: "int option"
  message :: "jsstring option"

text \<open>\<open>response.data\<close>: \<open>null\<close>, or a value whose \<open>article\<close> property is absent (\<open>None\<close>) or
  an object with that \<open>id\<close>.\<close>

datatype responseData = NullData | Data "int option"

text \<open>What \<open>axios.post\<close> did: resolved with a status and data (a status \<open>validateStatus\<close>
  accepts, 2xx by default); rejected with an \<open>AxiosError\<close> (its \<open>message\<close>, and for a reply
  with another status its \<open>response\<close>: the status and \<open>data.message\<close> if any; no \<open>response\<close>
  for a timeout or a refused connection); or something else was thrown (its message).\<close>

datatype postOutcome =
    Resolved int responseData
  | AxiosRejected jsstring "(int \<times> jsstring option) option"
  | Thrown jsstring

definition firstTruthy :: "jsstring option \<Rightarrow> jsstring \<Rightarrow> jsstring" where
  "firstTruthy a b = (case a of Some s \<Rightarrow> if s \<noteq> [] then s else b | None \<Rightarrow> b)"

definition apiErrorMessage :: "jsstring \<Rightarrow> (int \<times> jsstring option) option \<Rightarrow> jsstring" where
  "apiErrorMessage axiosMessage response =
     (let errorMessage =
            firstTruthy (case response of Some (st, m) \<Rightarrow> m | None \<Rightarrow> None)
              (firstTruthy (Some axiosMessage) (js ''Unknown error''));
          statusCode =
            (case response of
               Some (st, m) \<Rightarrow> if st \<noteq> 0 then showInt st else js ''N/A''
             | None \<Rightarrow> js ''N/A'')
      in js ''API Error ('' @ statusCode @ js ''): '' @ errorMessage)"

text \<open>\<open>publishArticleToLaravel\<close>: \<open>Inl\<close> is what it throws. \<open>random\<close> is
  \<open>Math.floor(Math.random() * 10000)\<close>. Reading \<open>response.data.article\<close> on \<open>null\<close> data
  throws inside the \<open>try\<close> block (after \<open>response.status === 201\<close> held) and is caught
  there.\<close>

definition publishArticleToLaravel ::
  "LaravelConfig \<Rightarrow> int \<Rightarrow> ArticleData \<Rightarrow> postOutcome \<Rightarrow> error + ArticlePublishResponse" where
  "publishArticleToLaravel config random article outcome =
     (if mockMode config
      then Inr \<lparr>success = True, articleId = Some random,
                message = Some (js ''Mock mode: Article published successfully'')\<rparr>
      else if store config = []
      then Inl (Error (js ''Laravel API store endpoint is not configured''))
      else if apiToken config = []
      then Inl (Error (js ''Laravel API token is not configured''))
      else
        (case outcome of
           Resolved st d \<Rightarrow>
             (if st = 201
              then (case d of
                      NullData \<Rightarrow>
                        Inr \<lparr>success = False, articleId = None,
                             message = Some (js ''Unexpected error: ''
                               @ js ''Cannot read properties of null (reading 'article')'')\<rparr>
                    | Data (Some articleIdValue) \<Rightarrow>
                        Inr \<lparr>success = True, articleId = Some articleIdValue,
                             message = Some (js ''Article published successfully'')\<rparr>
                    | Data None \<Rightarrow>
                        Inr \<lparr>success = False, articleId = None,
                             message = Some (js ''Failed to publish article'')\<rparr>)
              else Inr \<lparr>success = False, articleId = None,
                        message = Some (js ''Failed to publish article'')\<rparr>)
         | AxiosRejected axiosMessage response \<Rightarrow>
             Inr \<lparr>success = False, articleId = None,
                  message = Some (apiErrorMessage axiosMessage response)\<rparr>
         | Thrown errorMessage \<Rightarrow>
             Inr \<lparr>success = False, articleId = None,
                  message = Some (js ''Unexpected error: '' @ errorMessage)\<rparr>))"


section \<open>Specification-side notions and example data\<close>

text \<open>A persona and a keyword that carry only a category (and an ID), as in the matcher's
  test.\<close>

definition personaOf :: "string \<Rightarrow> PersonaData" where
  "personaOf c = \<lparr>PersonaData.Category = js c, Persona_Detail = [], Worry_Description = [],
                  Tone_Instruction = [], Context_Scenario = []\<rparr>"

definition keywordOf :: "string \<Rightarrow> string \<Rightarrow> SeoKeywordData" where
  "keywordOf c i = \<lparr>ID = js i, SeoKeywordData.Category = js c, Main_Keyword = [],
                    Sub_Keywords = [], User_Intent = [], Title_Idea = []\<rparr>"

text \<open>A finished article (with an identifier when \<open>i\<close> is given), a generation task, and
  a publisher configuration.\<close>

definition exampleArticle :: "jsnumber option \<Rightarrow> ArticleData" where
  "exampleArticle i =
     \<lparr>ArticleData.id_field = i, category_id = CatString (js ''3''),
      ArticleData.title = Some (js ''T''), ArticleData.body = Some (js ''B''),
      ArticleData.slug = Some (js ''t''), status = js ''draft'',
      meta_title = Some (js ''M''), meta_description = Some (js ''D''),
      api_posted = False\<rparr>"

definition exampleInput :: ArticleGenerationInput where
  "exampleInput = \<lparr>persona = personaOf ''A'', seoKeyword = keywordOf ''A'' ''k1''\<rparr>"

definition exampleConfig :: LaravelConfig where
  "exampleConfig =
     \<lparr>store = js ''http://localhost:9000/api/articles'', apiToken = js ''test-token'',
      mockMode = False\<rparr>"

text \<open>A catalog that holds the three names of the static table, with ids 3, 1 and 2.\<close>

definition exampleCatalog :: "ArticleCategory list" where
  "exampleCatalog =
     [\<lparr>ArticleCategory.id_field = 1, name = [0x4ecb, 0x8b77, 0x8cc7, 0x683c],
       ArticleCategory.slug = js ''qualification''\<rparr>,
      \<lparr>ArticleCategory.id_field = 2, name = [0x8a2a, 0x554f, 0x4ecb, 0x8b77],
       ArticleCategory.slug = js ''visiting-care''\<rparr>,
      \<lparr>ArticleCategory.id_field = 3, name = [0x304a, 0x4ed5, 0x4e8b, 0x306e, 0x76f8, 0x8ac7],
       ArticleCategory.slug = js ''job-consultation''\<rparr>]"

text \<open>Two generation calls of which the first rejects and the second succeeds, as in the
  test "should continue processing even if one article fails".\<close>

definition failFirst :: "nat \<Rightarrow> ArticleGenerationInput \<Rightarrow> jsstring + ArticleData" where
  "failFirst i input =
     (if i = 0 then Inl (js ''First article failed'') else Inr (exampleArticle None))"

text \<open>A cell written without escaping reads back as one field of one row when it holds
  no comma, no double quote and no line feed.\<close>

definition clean :: "jsstring \<Rightarrow> bool" where
  "clean s \<longleftrightarrow> comma \<notin> set s \<and> dquote \<notin> set s \<and> newline \<notin> set s"

text \<open>The whole numbers a double holds exactly: those that rounding leaves as they
  are.\<close>

definition isDouble :: "int \<Rightarrow> bool" where
  "isDouble i \<longleftrightarrow> toNumber i = Num i"

fun doubleId :: "jsnumber option \<Rightarrow> bool" where
  "doubleId (Some (Num n)) = isDouble n"
| "doubleId _ = True"

text \<open>An identifier that both writers print in decimal digits and the reader gives back:
  absent, or a whole number other than \<open>0\<close> of magnitude below \<open>10^21\<close>. (\<open>NaN\<close>, \<open>0\<close> and
  the infinities are not read back, and from \<open>10^21\<close> on a number is printed in exponent
  notation, of which \<open>parseInt\<close> reads the first digit.)\<close>

fun storableId :: "jsnumber option \<Rightarrow> bool" where
  "storableId None = True"
| "storableId (Some (Num n)) = (n \<noteq> 0 \<and> \<bar>n\<bar> < 10 ^ 21)"
| "storableId (Some _) = False"

text \<open>The records the store can hold: the identifier is as above; \<open>category_id\<close> is a
  string; no text field is \<open>undefined\<close>; the cells written without escaping
  (\<open>category_id\<close>, \<open>slug\<close>, \<open>status\<close>) are clean, and \<open>status\<close> is not empty.\<close>

definition storable :: "ArticleData \<Rightarrow> bool" where
  "storable a \<longleftrightarrow>
     storableId (ArticleData.id_field a) \<and>
     (case category_id a of CatString c \<Rightarrow> clean c | _ \<Rightarrow> False) \<and>
     ArticleData.title a \<noteq> None \<and> ArticleData.body a \<noteq> None \<and>
     (case ArticleData.slug a of Some s \<Rightarrow> clean s | None \<Rightarrow> False) \<and>
     clean (status a) \<and> status a \<noteq> [] \<and>
     meta_title a \<noteq> None \<and> meta_description a \<noteq> None"

text \<open>Writing a sequence of records with \<open>appendArticleToCSV\<close>, one call after the other,
  as the batch drivers do; the first error ends the sequence.\<close>

fun appendAll ::
  "filesystem \<Rightarrow> string \<Rightarrow> ArticleData list \<Rightarrow> (error + ArticleData list) \<times> filesystem" where
  "appendAll fs filePath [] = (Inr [], fs)"
| "appendAll fs filePath (article # articles) =
     (case appendArticleToCSV fs filePath article of
        (Inl e, fs') \<Rightarrow> (Inl e, fs')
      | (Inr saved, fs') \<Rightarrow>
          (case appendAll fs' filePath articles of
             (Inl e, fs'') \<Rightarrow> (Inl e, fs'')
           | (Inr rest, fs'') \<Rightarrow> (Inr (saved # rest), fs'')))"

text \<open>Every line feed of the text stands inside double quotes; \<open>inside\<close> says whether the
  text starts inside quotes.\<close>

fun newlinesQuoted :: "bool \<Rightarrow> jsstring \<Rightarrow> bool" where
  "newlinesQuoted inside [] = True"
| "newlinesQuoted inside (c # cs) =
     (if c = dquote then newlinesQuoted (\<not> inside) cs
      else if c = newline then inside \<and> newlinesQuoted inside cs
      else newlinesQuoted inside cs)"

text \<open>A text that the line-joining loop of \<open>readArticlesFromCSV\<close> keeps in one piece:
  its line feeds stand inside quotes and its quotes are balanced.\<close>

definition oneRecord :: "jsstring \<Rightarrow> bool" where
  "oneRecord x \<longleftrightarrow> newlinesQuoted False x \<and> even (quoteCount x)"

text \<open>The header row of the article file, without its line feed.\<close>

definition headerLine :: jsstring where
  "headerLine = js ''id,category_id,title,body,slug,status,meta_title,meta_description,api_posted''"


text \<open>The two cells of such a record that are written as they are and may hold any
  text.\<close>

definition verbatimCellsClean :: "ArticleData \<Rightarrow> bool" where
  "verbatimCellsClean a \<longleftrightarrow>
     (case category_id a of CatString c \<Rightarrow> clean c | _ \<Rightarrow> False) \<and>
     (case ArticleData.slug a of Some s \<Rightarrow> clean s | None \<Rightarrow> False)"

text \<open>Files for the examples: an article file whose second row quotes a slug that holds
  a comma (well-formed CSV, as another tool or an editor writes it), and its first row
  has a body with a comma, a doubled quote and a line feed.\<close>

definition quotedSlugFile :: jsstring where
  "quotedSlugFile =
     csvHeader
     @ js ''1,3,T,\"a,\"\"b\"\"'' @ [newline] @ js ''c\",s-1,draft,M,D,0'' @ [newline]
     @ js ''2,4,T2,B2,\"x,y\",published,M2,D2,1'' @ [newline]"

definition storeFile :: jsstring where
  "storeFile =
     csvHeader
     @ js ''1,3,T,\"a,\"\"b\"\"'' @ [newline] @ js ''c\",s-1,draft,M,D,0'' @ [newline]
     @ js ''2,4,T2,B2,s-2,published,M2,D2,1'' @ [newline]"

definition firstRecord :: ArticleData where
  "firstRecord =
     \<lparr>ArticleData.id_field = Some (Num 1), category_id = CatString (js ''3''),
      ArticleData.title = Some (js ''T''),
      ArticleData.body = Some (js ''a,\"b\"'' @ [newline] @ js ''c''),
      ArticleData.slug = Some (js ''s-1''), status = js ''draft'',
      meta_title = Some (js ''M''), meta_description = Some (js ''D''),
      api_posted = False\<rparr>"

definition secondRecord :: "jsstring \<Rightarrow> ArticleData" where
  "secondRecord s =
     \<lparr>ArticleData.id_field = Some (Num 2), category_id = CatString (js ''4''),
      ArticleData.title = Some (js ''T2''), ArticleData.body = Some (js ''B2''),
      ArticleData.slug = Some s, status = js ''published'',
      meta_title = Some (js ''M2''), meta_description = Some (js ''D2''),
      api_posted = True\<rparr>"

text \<open>An article file whose only record has the identifier \<open>10^21\<close>, and one whose only
  record has the identifier \<open>2^53\<close>.\<close>

definition largeIdFile :: jsstring where
  "largeIdFile =
     csvHeader @ js ''1000000000000000000000,3,T,B,t,draft,M,D,0'' @ [newline]"

definition unsafeIdFile :: jsstring where
  "unsafeIdFile =
     csvHeader @ js ''9007199254740992,3,T,B,t,draft,M,D,0'' @ [newline]"

text \<open>An identifier to which the store can add 1 exactly: not \<open>Infinity\<close>, and when it
  is a whole number, one below \<open>2^53 - 1\<close>.\<close>

fun safeId :: "jsnumber option \<Rightarrow> bool" where
  "safeId (Some (Num n)) = (n < 2 ^ 53 - 1)"
| "safeId (Some PosInfinity) = False"
| "safeId _ = True"

text \<open>The row of \<open>exampleArticle\<close> with the identifier 1, as \<open>appendArticleToCSV\<close> writes
  it.\<close>

definition exampleRow :: jsstring where
  "exampleRow = js ''1,3,T,B,t,draft,M,D,0'' @ [newline]"

text \<open>The updates of the tests: \<open>{ api_posted: true }\<close>; and an update of the slug.\<close>

definition renameSlug :: ArticleUpdates where
  "renameSlug =
     \<lparr>upd_id = None, upd_category_id = None, upd_title = None, upd_body = None,
      upd_slug = Some (js ''s-2''), upd_status = None, upd_meta_title = None,
      upd_meta_description = None, upd_api_posted = None\<rparr>"


definition markPosted :: ArticleUpdates where
  "markPosted =
     \<lparr>upd_id = None, upd_category_id = None, upd_title = None, upd_body = None,
      upd_slug = None, upd_status = None, upd_meta_title = None,
      upd_meta_description = None, upd_api_posted = Some True\<rparr>"

text \<open>The file \<open>storeFile\<close> after its last row was deleted.\<close>

definition storeFileWithoutLastRow :: jsstring where
  "storeFileWithoutLastRow =
     csvHeader
     @ js ''1,3,T,\"a,\"\"b\"\"'' @ [newline] @ js ''c\",s-1,draft,M,D,0'' @ [newline]"

text \<open>What the rows of \<open>quotedSlugFile\<close> read back as after the store has rewritten the
  file: the second row has moved its cells.\<close>

definition shiftedSecondRecord :: ArticleData where
  "shiftedSecondRecord =
     \<lparr>ArticleData.id_field = Some (Num 2), category_id = CatString (js ''4''),
      ArticleData.title = Some (js ''T2''), ArticleData.body = Some (js ''B2''),
      ArticleData.slug = Some (js ''x''), status = js ''y'',
      meta_title = Some (js ''published''), meta_description = Some (js ''M2''),
      api_posted = False\<rparr>"

text \<open>The specification's words for the extraction of the generation client, "the first
  balanced \<open>{...}\<close> JSON object substring": the text from the first opening brace that has a
  matching closing brace up to that closing brace. \<open>closeBrace d\<close> reads on with \<open>d\<close> braces
  open.\<close>

fun closeBrace :: "nat \<Rightarrow> jsstring \<Rightarrow> jsstring option" where
  "closeBrace d [] = None"
| "closeBrace d (c # cs) =
     (if c = lbrace then map_option ((#) c) (closeBrace (Suc d) cs)
      else if c = rbrace then
        (if d \<le> 1 then Some [c] else map_option ((#) c) (closeBrace (d - 1) cs))
      else map_option ((#) c) (closeBrace d cs))"

fun spec_firstBalancedObject :: "jsstring \<Rightarrow> jsstring option" where
  "spec_firstBalancedObject [] = None"
| "spec_firstBalancedObject (c # cs) =
     (if c = lbrace
      then (case closeBrace 1 cs of
              Some r \<Rightarrow> Some (c # r)
            | None \<Rightarrow> spec_firstBalancedObject cs)
      else spec_firstBalancedObject cs)"

text \<open>A stand-in for \<open>JSON.parse\<close> in the examples: it parses the object text of the
  specification's example and rejects every other text (as \<open>JSON.parse\<close> rejects that
  object text followed by anything but white space).\<close>

definition exampleParse :: "jsstring \<Rightarrow> jsstring + (jsstring \<rightharpoonup> json)" where
  "exampleParse text =
     (if text = js ''{\"title\":\"T\",\"body\":\"B\"}''
      then Inr [js ''title'' \<mapsto> JString (js ''T''), js ''body'' \<mapsto> JString (js ''B'')]
      else Inl (js ''Unexpected non-whitespace character after JSON at position 25''))"


section \<open>The matcher pairs each keyword with the first persona of its category\<close>

lemma match_keywords:
  "map snd (matchPersonaWithKeywords personas kws) =
     filter (\<lambda>k. \<exists>p \<in> set personas. PersonaData.Category p = SeoKeywordData.Category k) kws"
proof (induction kws)
  case Nil
  then show ?case by simp
next
  case (Cons keyword kws)
  show ?case
  proof (cases "find (\<lambda>p. PersonaData.Category p = SeoKeywordData.Category keyword) personas")
    case None
    then have "\<not> (\<exists>p \<in> set personas. PersonaData.Category p = SeoKeywordData.Category keyword)"
      by (simp add: find_None_iff)
    with None Cons show ?thesis by simp
  next
    case (Some p)
    then have "\<exists>p \<in> set personas. PersonaData.Category p = SeoKeywordData.Category keyword"
      by (auto simp: find_Some_iff)
    with Some Cons show ?thesis by simp
  qed
qed

lemma match_first:
  "(p, k) \<in> set (matchPersonaWithKeywords personas kws) \<Longrightarrow>
     find (\<lambda>q. PersonaData.Category q = SeoKeywordData.Category k) personas = Some p"
  by (induction kws) (auto split: option.splits)

text \<open>
  Claim C8. For all personas and keywords, the keywords of the emitted pairs are, in input
  order, exactly the keywords whose category some persona has (the others are skipped
  without an error), and every emitted pair holds the first persona, in persona input
  order, whose category equals the keyword's.
\<close>

theorem matcher_pairs_first_persona_in_keyword_order:
  "map snd (matchPersonaWithKeywords personas kws) =
     filter (\<lambda>k. \<exists>p \<in> set personas. PersonaData.Category p = SeoKeywordData.Category k) kws
   \<and> (\<forall>p k. (p, k) \<in> set (matchPersonaWithKeywords personas kws) \<longrightarrow>
         (\<exists>i < length personas. personas ! i = p
            \<and> PersonaData.Category p = SeoKeywordData.Category k
            \<and> (\<forall>j < i. PersonaData.Category (personas ! j) \<noteq> SeoKeywordData.Category k)))"
proof (intro conjI allI impI)
  show "map snd (matchPersonaWithKeywords personas kws) =
     filter (\<lambda>k. \<exists>p \<in> set personas. PersonaData.Category p = SeoKeywordData.Category k) kws"
    by (rule match_keywords)
next
  fix p k
  assume "(p, k) \<in> set (matchPersonaWithKeywords personas kws)"
  then have "find (\<lambda>q. PersonaData.Category q = SeoKeywordData.Category k) personas = Some p"
    by (rule match_first)
  then show "\<exists>i < length personas. personas ! i = p
            \<and> PersonaData.Category p = SeoKeywordData.Category k
            \<and> (\<forall>j < i. PersonaData.Category (personas ! j) \<noteq> SeoKeywordData.Category k)"
    unfolding find_Some_iff by metis
qed

text \<open>The example of the specification: personas A, B and keywords (A, k1), (C, k2),
  (B, k3) give the two pairs (A, k1), (B, k3).\<close>

theorem matcher_witness:
  "map snd (matchPersonaWithKeywords [personaOf ''A'', personaOf ''B'']
       [keywordOf ''A'' ''k1'', keywordOf ''C'' ''k2'', keywordOf ''B'' ''k3''])
     = [keywordOf ''A'' ''k1'', keywordOf ''B'' ''k3'']
   \<and> (personaOf ''B'', keywordOf ''B'' ''k3'')
       \<in> set (matchPersonaWithKeywords [personaOf ''A'', personaOf ''B'']
       [keywordOf ''A'' ''k1'', keywordOf ''C'' ''k2'', keywordOf ''B'' ''k3''])
   \<and> (\<exists>i < length [personaOf ''A'', personaOf ''B''].
          [personaOf ''A'', personaOf ''B''] ! i = personaOf ''B''
          \<and> PersonaData.Category (personaOf ''B'') = SeoKeywordData.Category (keywordOf ''B'' ''k3''))"
proof -
  let ?ps = "[personaOf ''A'', personaOf ''B'']"
  let ?ks = "[keywordOf ''A'' ''k1'', keywordOf ''C'' ''k2'', keywordOf ''B'' ''k3'']"
  have ev: "matchPersonaWithKeywords ?ps ?ks
      = [(personaOf ''A'', keywordOf ''A'' ''k1''), (personaOf ''B'', keywordOf ''B'' ''k3'')]"
    by (simp add: personaOf_def keywordOf_def js_def)
  have mem: "(personaOf ''B'', keywordOf ''B'' ''k3'') \<in> set (matchPersonaWithKeywords ?ps ?ks)"
    unfolding ev by simp
  have sn: "map snd (matchPersonaWithKeywords ?ps ?ks)
      = [keywordOf ''A'' ''k1'', keywordOf ''B'' ''k3'']"
    unfolding ev by simp
  from matcher_pairs_first_persona_in_keyword_order [of ?ps ?ks] mem
  have ex: "\<exists>i < length ?ps. ?ps ! i = personaOf ''B''
          \<and> PersonaData.Category (personaOf ''B'') = SeoKeywordData.Category (keywordOf ''B'' ''k3'')"
    by blast
  from sn mem ex show ?thesis by (intro conjI)
qed

section \<open>The publisher throws only for missing configuration\<close>

text \<open>
  Claim C6. Whatever the request did, \<open>publishArticleToLaravel\<close> throws exactly when it is
  not in mock mode and the store endpoint or the API token is missing. With both
  configured, a request rejected by axios (a timeout or a refused connection: no
  response; a status outside 2xx: a response) and anything else thrown inside the \<open>try\<close>
  block give the result \<open>{success: false, message}\<close>.
\<close>

theorem publisher_throws_only_for_missing_configuration:
  "((\<exists>e. publishArticleToLaravel config random article outcome = Inl e)
      \<longleftrightarrow> \<not> mockMode config \<and> (store config = [] \<or> apiToken config = []))
   \<and> (\<not> mockMode config \<and> store config \<noteq> [] \<and> apiToken config \<noteq> [] \<longrightarrow>
        publishArticleToLaravel config random article (AxiosRejected axiosMessage response)
          = Inr \<lparr>success = False, articleId = None,
                 message = Some (apiErrorMessage axiosMessage response)\<rparr>
        \<and> publishArticleToLaravel config random article (Thrown errorMessage)
          = Inr \<lparr>success = False, articleId = None,
                 message = Some (js ''Unexpected error: '' @ errorMessage)\<rparr>)"
  by (auto simp: publishArticleToLaravel_def split: postOutcome.splits responseData.splits option.splits)

text \<open>A timeout and a 422 reply with both settings present; a missing token.\<close>

theorem publisher_witness:
  "\<not> mockMode exampleConfig \<and> store exampleConfig \<noteq> [] \<and> apiToken exampleConfig \<noteq> []
   \<and> publishArticleToLaravel exampleConfig 0 (exampleArticle None)
        (AxiosRejected (js ''timeout of 30000ms exceeded'') None)
      = Inr \<lparr>success = False, articleId = None,
             message = Some (js ''API Error (N/A): timeout of 30000ms exceeded'')\<rparr>
   \<and> publishArticleToLaravel exampleConfig 0 (exampleArticle None)
        (AxiosRejected (js ''Request failed with status code 422'')
           (Some (422, Some (js ''Validation error''))))
      = Inr \<lparr>success = False, articleId = None,
             message = Some (js ''API Error (422): Validation error'')\<rparr>
   \<and> (\<exists>e. publishArticleToLaravel (exampleConfig\<lparr>apiToken := []\<rparr>) 0 (exampleArticle None)
        (AxiosRejected (js ''timeout of 30000ms exceeded'') None) = Inl e)"
proof -
  have c: "\<not> mockMode exampleConfig \<and> store exampleConfig \<noteq> [] \<and> apiToken exampleConfig \<noteq> []"
    by (simp add: exampleConfig_def js_def)
  have m1: "apiErrorMessage (js ''timeout of 30000ms exceeded'') None
      = js ''API Error (N/A): timeout of 30000ms exceeded''"
    by (simp add: apiErrorMessage_def firstTruthy_def js_def)
  have m2: "apiErrorMessage (js ''Request failed with status code 422'')
           (Some (422, Some (js ''Validation error'')))
      = js ''API Error (422): Validation error''"
    by (simp add: apiErrorMessage_def firstTruthy_def js_def showInt_def digits.simps)
  have c': "\<not> mockMode (exampleConfig\<lparr>apiToken := []\<rparr>)
       \<and> (store (exampleConfig\<lparr>apiToken := []\<rparr>) = [] \<or> apiToken (exampleConfig\<lparr>apiToken := []\<rparr>) = [])"
    by (simp add: exampleConfig_def)
  from publisher_throws_only_for_missing_configuration
         [of exampleConfig 0 "exampleArticle None" "AxiosRejected (js ''timeout of 30000ms exceeded'') None"
             "js ''timeout of 30000ms exceeded''" None "[]"] c
  have r1: "publishArticleToLaravel exampleConfig 0 (exampleArticle None)
        (AxiosRejected (js ''timeout of 30000ms exceeded'') None)
      = Inr \<lparr>success = False, articleId = None,
             message = Some (js ''API Error (N/A): timeout of 30000ms exceeded'')\<rparr>"
    unfolding m1 by blast
  from publisher_throws_only_for_missing_configuration
         [of exampleConfig 0 "exampleArticle None" "Thrown []"
             "js ''Request failed with status code 422''"
             "Some (422, Some (js ''Validation error''))" "[]"] c
  have r2: "publishArticleToLaravel exampleConfig 0 (exampleArticle None)
        (AxiosRejected (js ''Request failed with status code 422'')
           (Some (422, Some (js ''Validation error''))))
      = Inr \<lparr>success = False, articleId = None,
             message = Some (js ''API Error (422): Validation error'')\<rparr>"
    unfolding m2 by blast
  from publisher_throws_only_for_missing_configuration
         [of "exampleConfig\<lparr>apiToken := []\<rparr>" 0 "exampleArticle None"
             "AxiosRejected (js ''timeout of 30000ms exceeded'') None" "[]" None "[]"] c'
  have r3: "\<exists>e. publishArticleToLaravel (exampleConfig\<lparr>apiToken := []\<rparr>) 0 (exampleArticle None)
        (AxiosRejected (js ''timeout of 30000ms exceeded'') None) = Inl e"
    by blast
  from c r1 r2 r3 show ?thesis by (intro conjI) blast+
qed

section \<open>The batch driver: what it returns and when it sleeps\<close>

text \<open>The loop returns the articles of the calls that succeeded, in order, and calls
  \<open>generateArticle\<close> once for every input, whatever the earlier calls did.\<close>

lemma loop_articles:
  "fst (generateLoop g n i inputs)
     = concat (map (\<lambda>(k, x). case g k x of Inr a \<Rightarrow> [a] | Inl m \<Rightarrow> [])
                   (zip [i ..< i + length inputs] inputs))"
proof (induction inputs arbitrary: i)
  case Nil
  then show ?case by simp
next
  case (Cons x xs)
  have "[i ..< i + length (x # xs)] = i # [Suc i ..< Suc i + length xs]"
    by (simp add: upt_rec)
  with Cons[of "Suc i"] show ?case
    by (simp add: split_beta Let_def split: sum.splits)
qed

lemma loop_calls:
  "[x. CallGenerate x \<leftarrow> snd (generateLoop g n i inputs)] = inputs"
proof (induction inputs arbitrary: i)
  case Nil
  then show ?case by simp
next
  case (Cons x xs)
  from Cons[of "i + 1"] show ?case
    by (cases "g i x") (simp_all add: split_beta)
qed

text \<open>
  Claim C2, at two tasks of which the first fails. The batch goes on and returns the one
  article generated, and the failure is logged; but no \<open>sleep(2000)\<close> separates the two
  calls of \<open>generateArticle\<close>: the delay stands in the \<open>try\<close> block after the call, and
  a call that throws skips it.
\<close>

theorem no_delay_after_a_failed_generation:
  "generateMultipleArticles failFirst [exampleInput, exampleInput]
     = ([exampleArticle None],
        [Log Info (js ''2'' @ [0x4ef6, 0x306e, 0x8a18, 0x4e8b, 0x3092, 0x751f, 0x6210, 0x3057, 0x307e, 0x3059]),
         Log Info (newline # js ''[1/2'' @ [0x5d, 0x20, 0x51e6, 0x7406, 0x4e2d, 0x2e, 0x2e, 0x2e]),
         CallGenerate exampleInput,
         Log ErrorLevel ([0x8a18, 0x4e8b, 0x751f, 0x6210, 0x306b, 0x5931, 0x6557, 0x3a, 0x20]
                         @ js ''First article failed''),
         Log Info (newline # js ''[2/2'' @ [0x5d, 0x20, 0x51e6, 0x7406, 0x4e2d, 0x2e, 0x2e, 0x2e]),
         CallGenerate exampleInput,
         Log Success (newline # [0x5168, 0x4f53, 0x5b8c, 0x4e86, 0x3a, 0x20] @ js ''1/2''
               @ [0x4ef6, 0x306e, 0x8a18, 0x4e8b, 0x3092, 0x751f, 0x6210, 0x3057, 0x307e,
                  0x3057, 0x305f])])"
  by (simp add: generateMultipleArticles_def failFirst_def showInt_def digits.simps js_def)

section \<open>The category resolver\<close>

lemma exampleMapping:
  "getPersonaCategoryMapping (Inr exampleCatalog)
     = Inr [([0x73fe, 0x5f79, 0x65bd, 0x8a2d, 0x4ecb, 0x8b77, 0x58eb], 3),
            ([0x6f5c, 0x5728, 0x6709, 0x8cc7, 0x683c, 0x8005], 1),
            ([0x53ce, 0x5165, 0x30fb, 0x6761, 0x4ef6, 0x91cd, 0x8996], 2)]"
  by (simp add: getPersonaCategoryMapping_def PERSONA_TO_CATEGORY_NAME_def exampleCatalog_def)

text \<open>The example of the specification: the first label of the table resolves to the id
  of its catalog entry, and a label outside the table is rejected with a message that lists
  the three labels.\<close>

lemma resolver_example:
  "getCategoryIdFromPersona (Inr exampleCatalog)
      [0x73fe, 0x5f79, 0x65bd, 0x8a2d, 0x4ecb, 0x8b77, 0x58eb] = Inr (CategoryNumber 3)"
  by (simp add: getCategoryIdFromPersona_def exampleMapping)

lemma resolver_unknown_example:
  "getCategoryIdFromPersona (Inr exampleCatalog) (js ''x'')
     = Inl (Error (js ''Persona category \"x\" not found. Available categories: ''
          @ [0x73fe, 0x5f79, 0x65bd, 0x8a2d, 0x4ecb, 0x8b77, 0x58eb] @ js '', ''
          @ [0x6f5c, 0x5728, 0x6709, 0x8cc7, 0x683c, 0x8005] @ js '', ''
          @ [0x53ce, 0x5165, 0x30fb, 0x6761, 0x4ef6, 0x91cd, 0x8996]))"
  by (simp add: getCategoryIdFromPersona_def exampleMapping objectPrototypeKeys_def js_def
        personaNotFoundMessage_def)

text \<open>
  Claim C9, at the label \<open>toString\<close>. The label is not in the static table, yet
  \<open>personaCategory in mapping\<close> holds for it (the mapping object inherits the property from
  \<open>Object.prototype\<close>), so no error is thrown and the inherited member, which is not a
  number, is returned as the category id.
\<close>

theorem inherited_property_name_is_not_rejected:
  "getCategoryIdFromPersona (Inr exampleCatalog) (js ''toString'')
     = Inr (InheritedMember (js ''toString''))
   \<and> map_of PERSONA_TO_CATEGORY_NAME (js ''toString'') = None"
  by (simp add: getCategoryIdFromPersona_def exampleMapping objectPrototypeKeys_def js_def
        PERSONA_TO_CATEGORY_NAME_def)

section \<open>The generation client: what is extracted from the reply\<close>

lemma jsonMatch_span:
  assumes "lbrace \<notin> set pre" and "rbrace \<notin> set post"
  shows "jsonMatch (pre @ lbrace # mid @ rbrace # post) = Some (lbrace # mid @ [rbrace])"
proof -
  have d: "dropWhile (\<lambda>c. c \<noteq> lbrace) (pre @ lbrace # mid @ rbrace # post)
      = lbrace # mid @ rbrace # post"
    using assms(1) by (auto simp: dropWhile_append3)
  have "dropWhile (\<lambda>c. c \<noteq> rbrace) (rev post @ rbrace # rev mid @ [lbrace])
      = rbrace # rev mid @ [lbrace]"
    using assms(2) by (auto simp: dropWhile_append3)
  then show ?thesis
    unfolding jsonMatch_def Let_def d by simp
qed

lemma jsonMatch_None:
  "jsonMatch reply = None
     \<longleftrightarrow> \<not> (\<exists>pre mid post. reply = pre @ lbrace # mid @ rbrace # post)"
proof
  assume n: "jsonMatch reply = None"
  show "\<not> (\<exists>pre mid post. reply = pre @ lbrace # mid @ rbrace # post)"
  proof
    assume "\<exists>pre mid post. reply = pre @ lbrace # mid @ rbrace # post"
    then obtain pre mid post where r: "reply = pre @ lbrace # mid @ rbrace # post" by blast
    have "rbrace \<in> set (dropWhile (\<lambda>c. c \<noteq> lbrace) (pre @ lbrace # mid @ rbrace # post))"
      by (induction pre) auto
    with n r show False by (simp add: jsonMatch_def Let_def split: if_splits)
  qed
next
  assume a: "\<not> (\<exists>pre mid post. reply = pre @ lbrace # mid @ rbrace # post)"
  let ?t = "dropWhile (\<lambda>c. c \<noteq> lbrace) reply"
  have "rbrace \<notin> set ?t"
  proof
    assume in_t: "rbrace \<in> set ?t"
    have ne: "?t \<noteq> []"
    proof
      assume "?t = []"
      with in_t show False by (simp only: set_simps empty_iff)
    qed
    from hd_dropWhile[OF ne] have "hd ?t = lbrace" by simp
    with ne obtain t' where t: "?t = lbrace # t'" by (cases ?t) auto
    with in_t have "rbrace \<in> set t'" by simp
    then obtain mid post where "t' = mid @ rbrace # post" by (auto dest: split_list)
    with t have "reply = takeWhile (\<lambda>c. c \<noteq> lbrace) reply @ lbrace # mid @ rbrace # post"
      using takeWhile_dropWhile_id[of "\<lambda>c. c \<noteq> lbrace" reply] by simp
    with a show False by blast
  qed
  then show "jsonMatch reply = None" by (simp add: jsonMatch_def Let_def)
qed

text \<open>
  Claim C7, as amended. For every reply and every \<open>JSON.parse\<close>: a reply in which no \<open>{\<close>
  is followed by a \<open>}\<close> raises the error \<open>Failed to parse JSON from model response\<close>;
  otherwise the text handed to \<open>JSON.parse\<close> is the span from the first \<open>{\<close> to the last
  \<open>}\<close> of the reply; and when that span parses to an object whose \<open>title\<close> and \<open>body\<close> are
  non-empty strings and which has no \<open>slug\<close>, the result holds that title, that body and
  the slug \<open>generateSlug\<close> derives from the title.
\<close>

theorem generation_client_parses_from_first_to_last_brace:
  "(\<not> (\<exists>pre mid post. reply = pre @ lbrace # mid @ rbrace # post) \<longrightarrow>
      generateArticleDraft JSON_parse (HttpResolved reply)
        = Inl (Error (js ''Failed to parse JSON from model response'')))
   \<and> (lbrace \<notin> set pre \<and> rbrace \<notin> set post \<longrightarrow>
        jsonMatch (pre @ lbrace # mid @ rbrace # post) = Some (lbrace # mid @ [rbrace]))
   \<and> (lbrace \<notin> set pre \<and> rbrace \<notin> set post
        \<and> JSON_parse (lbrace # mid @ [rbrace]) = Inr parsed
        \<and> parsed (js ''title'') = Some (JString t) \<and> t \<noteq> []
        \<and> parsed (js ''body'') = Some (JString b) \<and> b \<noteq> []
        \<and> parsed (js ''slug'') = None \<longrightarrow>
        generateArticleDraft JSON_parse (HttpResolved (pre @ lbrace # mid @ rbrace # post))
          = Inr \<lparr>ArticleGenerationResponse.title = JString t,
                 ArticleGenerationResponse.body = JString b,
                 ArticleGenerationResponse.slug = JString (generateSlug t)\<rparr>)"
proof (intro conjI impI)
  assume "\<not> (\<exists>pre mid post. reply = pre @ lbrace # mid @ rbrace # post)"
  then have "jsonMatch reply = None" using jsonMatch_None by blast
  then show "generateArticleDraft JSON_parse (HttpResolved reply)
        = Inl (Error (js ''Failed to parse JSON from model response''))"
    by (simp add: generateArticleDraft_def)
next
  assume "lbrace \<notin> set pre \<and> rbrace \<notin> set post"
  then show "jsonMatch (pre @ lbrace # mid @ rbrace # post) = Some (lbrace # mid @ [rbrace])"
    by (simp add: jsonMatch_span)
next
  assume a: "lbrace \<notin> set pre \<and> rbrace \<notin> set post
        \<and> JSON_parse (lbrace # mid @ [rbrace]) = Inr parsed
        \<and> parsed (js ''title'') = Some (JString t) \<and> t \<noteq> []
        \<and> parsed (js ''body'') = Some (JString b) \<and> b \<noteq> []
        \<and> parsed (js ''slug'') = None"
  then have m: "jsonMatch (pre @ lbrace # mid @ rbrace # post) = Some (lbrace # mid @ [rbrace])"
    by (simp add: jsonMatch_span)
  show "generateArticleDraft JSON_parse (HttpResolved (pre @ lbrace # mid @ rbrace # post))
          = Inr \<lparr>ArticleGenerationResponse.title = JString t,
                 ArticleGenerationResponse.body = JString b,
                 ArticleGenerationResponse.slug = JString (generateSlug t)\<rparr>"
    unfolding generateArticleDraft_def using a by (simp add: m)
qed

lemma generateSlug_T: "generateSlug (js ''T'') = js ''t''"
  by (simp add: generateSlug_def toLowerCase_def slugChar_def stripHyphens_def js_def)

text \<open>The replies of the specification: \<open>Sure! {"title":"T","body":"B"}\<close>, and a reply
  without braces.\<close>

theorem generation_client_witness:
  "generateArticleDraft exampleParse (HttpResolved (js ''Sure! {\"title\":\"T\",\"body\":\"B\"}''))
     = Inr \<lparr>ArticleGenerationResponse.title = JString (js ''T''),
            ArticleGenerationResponse.body = JString (js ''B''),
            ArticleGenerationResponse.slug = JString (js ''t'')\<rparr>
   \<and> generateArticleDraft exampleParse (HttpResolved (js ''This is not a valid JSON response''))
     = Inl (Error (js ''Failed to parse JSON from model response''))"
proof -
  let ?mid = "js ''\"title\":\"T\",\"body\":\"B\"''"
  let ?parsed = "[js ''title'' \<mapsto> JString (js ''T''), js ''body'' \<mapsto> JString (js ''B'')]"
  have r: "js ''Sure! {\"title\":\"T\",\"body\":\"B\"}'' = js ''Sure! '' @ lbrace # ?mid @ rbrace # []"
    by (simp add: js_def)
  have h: "lbrace \<notin> set (js ''Sure! '') \<and> rbrace \<notin> set []
        \<and> exampleParse (lbrace # ?mid @ [rbrace]) = Inr ?parsed
        \<and> ?parsed (js ''title'') = Some (JString (js ''T'')) \<and> js ''T'' \<noteq> []
        \<and> ?parsed (js ''body'') = Some (JString (js ''B'')) \<and> js ''B'' \<noteq> []
        \<and> ?parsed (js ''slug'') = None"
    by (simp add: exampleParse_def js_def)
  have n: "\<not> (\<exists>pre mid post. js ''This is not a valid JSON response''
              = pre @ lbrace # mid @ rbrace # post)"
  proof
    assume "\<exists>pre mid post. js ''This is not a valid JSON response''
              = pre @ lbrace # mid @ rbrace # post"
    then have "lbrace \<in> set (js ''This is not a valid JSON response'')" by auto
    then show False by (simp add: js_def)
  qed
  from generation_client_parses_from_first_to_last_brace
         [of "js ''This is not a valid JSON response''" exampleParse "js ''Sure! ''" "[]" ?mid
             ?parsed "js ''T''" "js ''B''"] h n
  show ?thesis unfolding r generateSlug_T[symmetric] by blast
qed

text \<open>
  The claim as stated fails on the reply \<open>{"title":"T","body":"B"} {}\<close>: its first balanced
  object is \<open>{"title":"T","body":"B"}\<close>, but the client matches up to the last brace, hands
  the whole reply to \<open>JSON.parse\<close>, and throws.
\<close>

theorem greedy_match_is_not_the_first_balanced_object:
  "spec_firstBalancedObject (js ''{\"title\":\"T\",\"body\":\"B\"} {}'')
     = Some (js ''{\"title\":\"T\",\"body\":\"B\"}'')
   \<and> jsonMatch (js ''{\"title\":\"T\",\"body\":\"B\"} {}'')
     = Some (js ''{\"title\":\"T\",\"body\":\"B\"} {}'')
   \<and> generateArticleDraft exampleParse (HttpResolved (js ''{\"title\":\"T\",\"body\":\"B\"} {}''))
     = Inl (Error (js ''Failed to parse JSON: ''
          @ js ''Unexpected non-whitespace character after JSON at position 25''))"
  by (simp add: generateArticleDraft_def jsonMatch_def exampleParse_def js_def)

text \<open>The slug derived from a title is empty when the title holds no letter, digit,
  kana or kanji.\<close>

lemma generateSlug_may_be_empty: "generateSlug (js ''!?'') = []"
  by (simp add: generateSlug_def toLowerCase_def slugChar_def stripHyphens_def js_def)


section \<open>The article store: reading back what the writers wrote\<close>

subsection \<open>Rounding to a double\<close>

lemma exponentOf_upper: "m < 2 ^ 53 * 2 ^ exponentOf m"
proof (induction m rule: exponentOf.induct)
  case (1 m)
  show ?case
  proof (cases "m < 2 ^ 53")
    case True
    then show ?thesis by (subst exponentOf.simps) simp
  next
    case False
    then have e: "exponentOf m = Suc (exponentOf (m div 2))"
      by (subst exponentOf.simps) simp
    from False 1 have "m div 2 < 2 ^ 53 * 2 ^ exponentOf (m div 2)" by simp
    then have "m < 2 * (2 ^ 53 * 2 ^ exponentOf (m div 2))" by linarith
    then show ?thesis unfolding e by (simp only: power_Suc mult.left_commute)
  qed
qed

lemma exponentOf_zero: "m < 2 ^ 53 \<Longrightarrow> exponentOf m = 0"
  by (subst exponentOf.simps) simp

lemma exponentOf_pos: "2 ^ 53 \<le> m \<Longrightarrow> 0 < exponentOf m"
  by (subst exponentOf.simps) simp

lemma exponentOf_lower: "0 < exponentOf m \<Longrightarrow> 2 ^ 52 * 2 ^ exponentOf m \<le> m"
proof (induction m rule: exponentOf.induct)
  case (1 m)
  show ?case
  proof (cases "m < 2 ^ 53")
    case True
    with "1.prems" show ?thesis by (simp add: exponentOf_zero)
  next
    case False
    then have e: "exponentOf m = Suc (exponentOf (m div 2))"
      by (subst exponentOf.simps) simp
    show ?thesis
    proof (cases "0 < exponentOf (m div 2)")
      case True
      with 1 False have "2 ^ 52 * 2 ^ exponentOf (m div 2) \<le> m div 2" by simp
      then have "2 * (2 ^ 52 * 2 ^ exponentOf (m div 2)) \<le> m" by linarith
      then show ?thesis unfolding e by (simp only: power_Suc mult.left_commute)
    next
      case False
      with \<open>\<not> m < 2 ^ 53\<close> show ?thesis unfolding e by simp
    qed
  qed
qed

lemma power2_less_cancel: "(c::nat) * 2 ^ a < 2 * c * 2 ^ b \<Longrightarrow> 0 < c \<Longrightarrow> a \<le> b"
proof (rule ccontr)
  assume lt: "c * 2 ^ a < 2 * c * 2 ^ b" and c: "0 < c" and "\<not> a \<le> b"
  then have "Suc b \<le> a" by simp
  then have "(2::nat) ^ Suc b \<le> 2 ^ a" by (intro power_increasing) simp_all
  then have "c * 2 ^ Suc b \<le> c * 2 ^ a" by simp
  with lt show False by simp
qed

lemma exponentOf_unique:
  assumes "2 ^ 52 * 2 ^ e \<le> m" "m < 2 ^ 53 * 2 ^ e" "0 < e"
  shows "exponentOf m = e"
proof -
  from assms(3) have "(2::nat) ^ 1 \<le> 2 ^ e" by (intro power_increasing) simp_all
  then have "(2::nat) ^ 53 \<le> 2 ^ 52 * 2 ^ e" by simp
  with assms(1) have "2 ^ 53 \<le> m" by linarith
  then have pos: "0 < exponentOf m" by (rule exponentOf_pos)
  from exponentOf_lower[OF pos] assms(2)
  have "(2::nat) ^ 52 * 2 ^ exponentOf m < 2 * 2 ^ 52 * 2 ^ e" by simp
  then have a: "exponentOf m \<le> e" by (rule power2_less_cancel) simp
  from exponentOf_upper[of m] assms(1)
  have "(2::nat) ^ 52 * 2 ^ e < 2 * 2 ^ 52 * 2 ^ exponentOf m" by simp
  then have "e \<le> exponentOf m" by (rule power2_less_cancel) simp
  with a show ?thesis by simp
qed

lemma roundToDouble_small: "m < 2 ^ 53 \<Longrightarrow> roundToDouble m = m"
  by (simp add: roundToDouble_def exponentOf_zero)

lemma roundToDouble_cases:
  "roundToDouble m = (m div 2 ^ exponentOf m) * 2 ^ exponentOf m
   \<or> roundToDouble m = (m div 2 ^ exponentOf m + 1) * 2 ^ exponentOf m"
  by (simp add: roundToDouble_def Let_def)

lemma roundToDouble_multiple:
  assumes "2 ^ exponentOf m dvd m"
  shows "roundToDouble m = m"
proof -
  from assms have "m mod 2 ^ exponentOf m = 0" by simp
  then show ?thesis by (simp add: roundToDouble_def Let_def assms)
qed

lemma quotient_bounds:
  "m div 2 ^ exponentOf m < 2 ^ 53"
  "0 < exponentOf m \<Longrightarrow> 2 ^ 52 \<le> m div 2 ^ exponentOf m"
proof -
  show "m div 2 ^ exponentOf m < 2 ^ 53"
    using exponentOf_upper[of m] by (simp add: less_mult_imp_div_less)
  assume "0 < exponentOf m"
  then show "2 ^ 52 \<le> m div 2 ^ exponentOf m"
    using exponentOf_lower[of m] by (simp add: less_eq_div_iff_mult_less_eq)
qed

lemma double_shape:
  assumes "q \<le> 2 ^ 53"
  shows "roundToDouble (q * 2 ^ e) = q * 2 ^ e"
proof (rule roundToDouble_multiple)
  let ?m = "q * 2 ^ e"
  show "2 ^ exponentOf ?m dvd ?m"
  proof (cases "q = 2 ^ 53")
    case True
    have "exponentOf (2 ^ 53 * 2 ^ e) = Suc e"
      by (rule exponentOf_unique) simp_all
    then have "exponentOf ?m = Suc e" unfolding True .
    moreover have "(2::nat) ^ Suc e dvd 2 ^ 53 * 2 ^ e" by simp
    ultimately show ?thesis unfolding True by simp
  next
    case False
    with assms have q: "q < 2 ^ 53" by simp
    have "exponentOf ?m \<le> e"
    proof (cases "0 < exponentOf ?m")
      case True
      from q have "q * 2 ^ e < 2 ^ 53 * 2 ^ e" by simp
      with exponentOf_lower[OF True]
      have "(2::nat) ^ 52 * 2 ^ exponentOf ?m < 2 ^ 53 * 2 ^ e" by linarith
      then have "(2::nat) ^ 52 * 2 ^ exponentOf ?m < 2 * 2 ^ 52 * 2 ^ e" by simp
      then show ?thesis by (rule power2_less_cancel) simp
    next
      case False
      then show ?thesis by simp
    qed
    then have "(2::nat) ^ exponentOf ?m dvd 2 ^ e" by (rule le_imp_power_dvd)
    then show ?thesis by simp
  qed
qed

lemma roundToDouble_idem: "roundToDouble (roundToDouble m) = roundToDouble m"
proof -
  have q: "m div 2 ^ exponentOf m < 2 ^ 53" by (rule quotient_bounds(1))
  from roundToDouble_cases[of m] show ?thesis
  proof
    assume r: "roundToDouble m = (m div 2 ^ exponentOf m) * 2 ^ exponentOf m"
    show ?thesis unfolding r using q by (intro double_shape) simp
  next
    assume r: "roundToDouble m = (m div 2 ^ exponentOf m + 1) * 2 ^ exponentOf m"
    show ?thesis unfolding r using q by (intro double_shape) simp
  qed
qed

lemma roundToDouble_large: "2 ^ 53 \<le> m \<Longrightarrow> 2 ^ 53 \<le> roundToDouble m"
proof -
  assume "2 ^ 53 \<le> m"
  then have pos: "0 < exponentOf m" by (rule exponentOf_pos)
  then have q: "2 ^ 52 \<le> m div 2 ^ exponentOf m" by (rule quotient_bounds(2))
  from pos have "(2::nat) ^ 1 \<le> 2 ^ exponentOf m" by (intro power_increasing) simp_all
  then have "(2::nat) ^ 53 \<le> 2 ^ 52 * 2 ^ exponentOf m" by simp
  also have "\<dots> \<le> (m div 2 ^ exponentOf m) * 2 ^ exponentOf m"
    using q by (intro mult_le_mono1)
  finally have "2 ^ 53 \<le> (m div 2 ^ exponentOf m) * 2 ^ exponentOf m" .
  with roundToDouble_cases[of m] show ?thesis by auto
qed

lemma roundToDouble_eq_small: "roundToDouble w = v \<Longrightarrow> v < 2 ^ 53 \<Longrightarrow> w = v"
  using roundToDouble_large[of w] roundToDouble_small[of w] by (cases "w < 2 ^ 53") auto

lemma shortestDecimal_rounds:
  "roundToDouble v = v \<Longrightarrow> roundToDouble (shortestDecimal v u) = v"
proof (induction v u rule: shortestDecimal.induct)
  case (1 v u)
  show ?case
  proof (cases "u \<le> 1")
    case True
    with "1.prems" show ?thesis by (subst shortestDecimal.simps) simp
  next
    case False
    then show ?thesis
      using "1.IH" "1.prems"
      by (subst shortestDecimal.simps) (auto simp: Let_def)
  qed
qed

lemma shortestDecimal_safe: "v < 2 ^ 53 \<Longrightarrow> shortestDecimal v u = v"
  using shortestDecimal_rounds[of v u] roundToDouble_small[of v] roundToDouble_eq_small
  by blast

lemma exponentOf_mono: "a \<le> b \<Longrightarrow> exponentOf a \<le> exponentOf b"
proof (cases "0 < exponentOf a")
  case False
  then show ?thesis by simp
next
  case True
  assume "a \<le> b"
  with exponentOf_lower[OF True] exponentOf_upper[of b]
  have "(2::nat) ^ 52 * 2 ^ exponentOf a < 2 ^ 53 * 2 ^ exponentOf b" by linarith
  then have "(2::nat) ^ 52 * 2 ^ exponentOf a < 2 * 2 ^ 52 * 2 ^ exponentOf b" by simp
  then show ?thesis by (rule power2_less_cancel) simp
qed

lemma double_dvd: "roundToDouble d = d \<Longrightarrow> 2 ^ exponentOf d dvd d"
  using roundToDouble_cases[of d] by (metis dvd_triv_right)

lemma roundToDouble_ge:
  assumes d: "roundToDouble d = d" and le: "d \<le> w"
  shows "d \<le> roundToDouble w"
proof -
  let ?e = "exponentOf w"
  have fl: "d \<le> (w div 2 ^ ?e) * 2 ^ ?e"
  proof (cases "exponentOf d = ?e")
    case True
    from double_dvd[OF d] obtain k where k: "d = 2 ^ ?e * k" unfolding True by (rule dvdE)
    with le have "k \<le> w div 2 ^ ?e"
      by (simp add: less_eq_div_iff_mult_less_eq mult.commute)
    then show ?thesis unfolding k by simp
  next
    case False
    with exponentOf_mono[OF le] have lt: "exponentOf d < ?e" by simp
    then have "Suc (exponentOf d) \<le> ?e" by simp
    then have "(2::nat) ^ Suc (exponentOf d) \<le> 2 ^ ?e" by (intro power_increasing) simp_all
    then have "(2::nat) ^ 53 * 2 ^ exponentOf d \<le> 2 ^ 52 * 2 ^ ?e" by simp
    with exponentOf_upper[of d] have "d \<le> 2 ^ 52 * 2 ^ ?e" by linarith
    also have "\<dots> \<le> (w div 2 ^ ?e) * 2 ^ ?e"
      using quotient_bounds(2)[of w] lt by (intro mult_le_mono1) simp
    finally show ?thesis .
  qed
  from roundToDouble_cases[of w] show ?thesis
  proof
    assume "roundToDouble w = (w div 2 ^ ?e) * 2 ^ ?e"
    with fl show ?thesis by simp
  next
    assume "roundToDouble w = (w div 2 ^ ?e + 1) * 2 ^ ?e"
    with fl show ?thesis by simp
  qed
qed

lemma double_10_21: "roundToDouble (10 ^ 21) = 10 ^ 21"
proof -
  have "roundToDouble (476837158203125 * 2 ^ 21) = 476837158203125 * 2 ^ 21"
    by (rule double_shape) simp
  then show ?thesis by simp
qed

lemma roundToDouble_below_10_21: "roundToDouble w = v \<Longrightarrow> v < 10 ^ 21 \<Longrightarrow> w < 10 ^ 21"
  using roundToDouble_ge[OF double_10_21, of w] by (cases "w < 10 ^ 21") auto

lemma toNumber_safe: "\<bar>i\<bar> < 2 ^ 53 \<Longrightarrow> toNumber i = Num i"
proof -
  assume a: "\<bar>i\<bar> < 2 ^ 53"
  then have "nat \<bar>i\<bar> < 2 ^ 53" by (simp add: nat_less_iff)
  then have r: "roundToDouble (nat \<bar>i\<bar>) = nat \<bar>i\<bar>" by (rule roundToDouble_small)
  have "(2::nat) ^ 53 \<le> 2 ^ 1024" by (intro power_increasing) simp_all
  with \<open>nat \<bar>i\<bar> < 2 ^ 53\<close> have "nat \<bar>i\<bar> < doubleLimit"
    unfolding doubleLimit_def by (rule less_le_trans)
  then show ?thesis by (simp add: toNumber_def r Let_def)
qed

lemma isDouble_iff:
  "isDouble i \<longleftrightarrow> roundToDouble (nat \<bar>i\<bar>) = nat \<bar>i\<bar> \<and> nat \<bar>i\<bar> < doubleLimit"
  by (auto simp: isDouble_def toNumber_def Let_def)

lemma toNumber_isDouble: "toNumber i = Num j \<Longrightarrow> isDouble j"
proof -
  assume t: "toNumber i = Num j"
  let ?m = "roundToDouble (nat \<bar>i\<bar>)"
  from t have m: "?m < doubleLimit" and j: "j = (if i < 0 then - int ?m else int ?m)"
    by (auto simp: toNumber_def Let_def split: if_splits)
  from j have "nat \<bar>j\<bar> = ?m" by simp
  with m show ?thesis by (simp add: isDouble_iff roundToDouble_idem)
qed


subsection \<open>Printing and parsing identifiers\<close>

lemma digits_nonempty: "digits n \<noteq> []"
  by (subst digits.simps) simp

lemma digits_isDigit: "c \<in> set (digits n) \<Longrightarrow> isDigit c"
proof (induction n arbitrary: c rule: digits.induct)
  case (1 n)
  show ?case
  proof (cases "n < 10")
    case True
    with "1.prems" show ?thesis
      by (subst (asm) digits.simps) (simp add: isDigit_def)
  next
    case False
    from "1.prems" have "c \<in> set (digits (n div 10)) \<or> c = 48 + n mod 10"
      by (subst (asm) digits.simps) (auto simp: False)
    then show ?thesis
    proof
      assume "c \<in> set (digits (n div 10))"
      with "1.IH" False show ?thesis by simp
    next
      assume "c = 48 + n mod 10"
      moreover have "n mod 10 < 10" by simp
      ultimately show ?thesis unfolding isDigit_def by linarith
    qed
  qed
qed

lemma digitsValue_snoc: "digitsValue (ds @ [d]) = 10 * digitsValue ds + (d - 48)"
  by (simp add: digitsValue_def)

lemma digitsValue_digits: "digitsValue (digits n) = n"
proof (induction n rule: digits.induct)
  case (1 n)
  show ?case
  proof (cases "n < 10")
    case True
    then show ?thesis by (subst digits.simps) (simp add: digitsValue_def)
  next
    case False
    with "1.IH" have "digitsValue (digits (n div 10)) = n div 10" by simp
    with False show ?thesis
      by (subst digits.simps) (simp add: digitsValue_snoc)
  qed
qed

lemma length_digits: "n < 10 ^ k \<Longrightarrow> 0 < k \<Longrightarrow> length (digits n) \<le> k"
proof (induction n arbitrary: k rule: digits.induct)
  case (1 n)
  show ?case
  proof (cases "n < 10")
    case True
    with "1.prems" show ?thesis by (subst digits.simps) simp
  next
    case False
    from "1.prems" obtain j where k: "k = Suc j" by (cases k) auto
    with "1.prems" False have j: "0 < j" by (cases j) auto
    from "1.prems" k have "n div 10 < 10 ^ j" by (simp add: less_mult_imp_div_less mult.commute)
    with "1.IH" False j have "length (digits (n div 10)) \<le> j" by simp
    with False k show ?thesis by (subst digits.simps) simp
  qed
qed

lemma isDigit_not_special:
  "isDigit c \<Longrightarrow> \<not> isWhiteSpace c \<and> c \<noteq> 45 \<and> c \<noteq> 43 \<and> c \<noteq> comma \<and> c \<noteq> dquote \<and> c \<noteq> newline"
  by (auto simp: isDigit_def isWhiteSpace_def)

lemma takeWhile_digits: "takeWhile isDigit (digits n) = digits n"
  by (simp add: digits_isDigit)

lemma hd_digits: "isDigit (hd (digits n))"
  using digits_nonempty[of n] digits_isDigit[of "hd (digits n)" n] by simp

lemma parseInt_digits: "parseInt (digits n) = toNumber (int n)"
proof -
  obtain c cs where d: "digits n = c # cs"
    using digits_nonempty[of n] by (cases "digits n") auto
  with hd_digits[of n] have c: "isDigit c" by simp
  have dw: "dropWhile isWhiteSpace (digits n) = digits n"
    using c d isDigit_not_special[of c] by simp
  have hd: "hd (digits n) \<noteq> 45 \<and> hd (digits n) \<noteq> 43"
    using c d isDigit_not_special[of c] by simp
  show ?thesis
    unfolding parseInt_def Let_def dw
    using hd digits_nonempty[of n]
    by (simp add: takeWhile_digits digitsValue_digits)
qed

lemma parseInt_minus_digits: "parseInt (45 # digits n) = toNumber (- int n)"
proof -
  have dw: "dropWhile isWhiteSpace (45 # digits n) = 45 # digits n"
    by (simp add: isWhiteSpace_def)
  show ?thesis
    unfolding parseInt_def Let_def dw
    using digits_nonempty[of n]
    by (simp add: takeWhile_digits digitsValue_digits)
qed

lemma showDouble_decimal:
  assumes "roundToDouble v = v" "v < 10 ^ 21"
  shows "\<exists>w. showDouble v = digits w \<and> roundToDouble w = v"
proof -
  let ?w = "shortestDecimal v (10 ^ (length (digits v) - 1))"
  have r: "roundToDouble ?w = v" using assms(1) by (rule shortestDecimal_rounds)
  then have "?w < 10 ^ 21" using assms(2) by (rule roundToDouble_below_10_21)
  then have "length (digits ?w) \<le> 21" by (rule length_digits) simp
  then have "showDouble v = digits ?w" by (simp add: showDouble_def Let_def)
  with r show ?thesis by blast
qed

lemma showDouble_safe: "v < 2 ^ 53 \<Longrightarrow> showDouble v = digits v"
proof -
  assume v: "v < 2 ^ 53"
  then have "v < 10 ^ 21" by (rule less_le_trans) simp
  then have "length (digits v) \<le> 21" by (rule length_digits) simp
  then show ?thesis by (simp add: showDouble_def Let_def shortestDecimal_safe[OF v])
qed

lemma numberToString_safe: "\<bar>i\<bar> < 2 ^ 53 \<Longrightarrow> numberToString (Num i) = showInt i"
proof -
  assume a: "\<bar>i\<bar> < 2 ^ 53"
  show ?thesis
  proof (cases "i < 0")
    case True
    with a have "nat (- i) < 2 ^ 53" by (simp add: nat_less_iff)
    then have "showDouble (nat (- i)) = digits (nat (- i))" by (rule showDouble_safe)
    with True show ?thesis by (simp add: showInt_def)
  next
    case False
    with a have "nat i < 2 ^ 53" by (simp add: nat_less_iff)
    then have "showDouble (nat i) = digits (nat i)" by (rule showDouble_safe)
    with False show ?thesis by (simp add: showInt_def)
  qed
qed

lemma toNumber_of_rounding:
  assumes "roundToDouble w = v" "v < doubleLimit"
  shows "toNumber (int w) = Num (int v)"
    and "w \<noteq> 0 \<Longrightarrow> toNumber (- int w) = Num (- int v)"
proof -
  from assms show "toNumber (int w) = Num (int v)"
    by (simp add: toNumber_def Let_def)
  assume "w \<noteq> 0"
  then have "- int w < 0" by simp
  with assms show "toNumber (- int w) = Num (- int v)"
    by (simp add: toNumber_def Let_def)
qed

lemma digits_clean: "clean (digits w)" "clean (45 # digits w)"
proof -
  have "\<forall>c \<in> set (digits w). c \<noteq> comma \<and> c \<noteq> dquote \<and> c \<noteq> newline"
    using digits_isDigit isDigit_not_special by blast
  then show "clean (digits w)" "clean (45 # digits w)"
    by (auto simp: clean_def)
qed

lemma numberToString_shape:
  assumes "isDouble i" "\<bar>i\<bar> < 10 ^ 21"
  shows "\<exists>w. numberToString (Num i) = (if i < 0 then 45 # digits w else digits w)
           \<and> roundToDouble w = nat \<bar>i\<bar>"
proof -
  define v where "v = nat \<bar>i\<bar>"
  from assms(1) have d: "roundToDouble v = v"
    unfolding v_def isDouble_iff by (rule conjunct1)
  from assms(2) have "v < 10 ^ 21" unfolding v_def by (simp add: nat_less_iff)
  with d obtain w where w: "showDouble v = digits w" "roundToDouble w = v"
    using showDouble_decimal by blast
  have "numberToString (Num i) = (if i < 0 then 45 # digits w else digits w)"
  proof (cases "i < 0")
    case True
    then have "nat (- i) = v" unfolding v_def by simp
    then have "showDouble (nat (- i)) = digits w" using w(1) by (simp only:)
    with True show ?thesis by (simp only: numberToString.simps if_True)
  next
    case False
    then have "nat i = v" unfolding v_def by simp
    then have "showDouble (nat i) = digits w" using w(1) by (simp only:)
    with False show ?thesis by (simp only: numberToString.simps if_False)
  qed
  with w(2) show ?thesis unfolding v_def by blast
qed

lemma numberToString_decimal:
  assumes "isDouble i" "\<bar>i\<bar> < 10 ^ 21"
  shows "parseInt (numberToString (Num i)) = Num i"
    and "numberToString (Num i) \<noteq> []"
    and "clean (numberToString (Num i))"
proof -
  from numberToString_shape[OF assms] obtain w where
    s: "numberToString (Num i) = (if i < 0 then 45 # digits w else digits w)"
    and r: "roundToDouble w = nat \<bar>i\<bar>"
    by blast
  from assms(1) have fin: "nat \<bar>i\<bar> < doubleLimit"
    unfolding isDouble_iff by (rule conjunct2)
  show "parseInt (numberToString (Num i)) = Num i"
  proof (cases "i < 0")
    case True
    have "w \<noteq> 0"
    proof
      assume "w = 0"
      with r have "nat \<bar>i\<bar> = 0" by (simp add: roundToDouble_small)
      with True show False by simp
    qed
    from toNumber_of_rounding(2)[OF r fin this] True show ?thesis
      unfolding s by (simp add: parseInt_minus_digits)
  next
    case False
    from toNumber_of_rounding(1)[OF r fin] False show ?thesis
      unfolding s by (simp add: parseInt_digits)
  qed
  show "numberToString (Num i) \<noteq> []" unfolding s by (simp add: digits_nonempty)
  show "clean (numberToString (Num i))" unfolding s by (simp add: digits_clean)
qed

subsection \<open>One row: the loop of parseCSVLine over what csvRow builds\<close>

lemma csvFields_plain:
  "c \<noteq> dquote \<Longrightarrow> c \<noteq> comma \<or> q \<Longrightarrow> csvFields q cur (c # cs) = csvFields q (cur @ [c]) cs"
  by (cases cs) auto

lemma csvFields_comma: "csvFields False cur (comma # cs) = cur # csvFields False [] cs"
  by (cases cs) auto

lemma csvFields_open: "csvFields False cur (dquote # cs) = csvFields True cur cs"
  by (cases cs) auto

lemma csvFields_pair:
  "csvFields True cur (dquote # dquote # cs) = csvFields True (cur @ [dquote]) cs"
  by simp

lemma csvFields_close:
  "cs = [] \<or> hd cs \<noteq> dquote \<Longrightarrow> csvFields True cur (dquote # cs) = csvFields False cur cs"
  by (cases cs) auto

lemma csvFields_plain_run:
  "comma \<notin> set f \<Longrightarrow> dquote \<notin> set f \<Longrightarrow>
     csvFields False cur (f @ rest) = csvFields False (cur @ f) rest"
proof (induction f arbitrary: cur)
  case Nil
  then show ?case by simp
next
  case (Cons c f)
  then have "csvFields False cur ((c # f) @ rest) = csvFields False (cur @ [c]) (f @ rest)"
    by (simp add: csvFields_plain del: csvFields.simps)
  with Cons show ?case by simp
qed

lemma doubleQuotes_Cons:
  "doubleQuotes (c # f) = (if c = dquote then [dquote, dquote] else [c]) @ doubleQuotes f"
  by (simp add: doubleQuotes_def)

lemma csvFields_quoted_run:
  "rest = [] \<or> hd rest \<noteq> dquote \<Longrightarrow>
     csvFields True cur (doubleQuotes f @ dquote # rest) = csvFields False (cur @ f) rest"
proof (induction f arbitrary: cur)
  case Nil
  then show ?case by (simp add: doubleQuotes_def csvFields_close del: csvFields.simps)
next
  case (Cons c f)
  show ?case
  proof (cases "c = dquote")
    case True
    then have "csvFields True cur (doubleQuotes (c # f) @ dquote # rest)
        = csvFields True (cur @ [c]) (doubleQuotes f @ dquote # rest)"
      by (simp add: doubleQuotes_Cons)
    with Cons show ?thesis by simp
  next
    case False
    then have "csvFields True cur (doubleQuotes (c # f) @ dquote # rest)
        = csvFields True (cur @ [c]) (doubleQuotes f @ dquote # rest)"
      by (simp add: doubleQuotes_Cons csvFields_plain del: csvFields.simps)
    with Cons show ?thesis by simp
  qed
qed

lemma csvFields_plain_cell:
  "comma \<notin> set f \<Longrightarrow> dquote \<notin> set f \<Longrightarrow>
     csvFields False [] (f @ comma # rest) = f # csvFields False [] rest"
  by (simp add: csvFields_plain_run csvFields_comma del: csvFields.simps)

lemma csvFields_last_cell:
  "comma \<notin> set f \<Longrightarrow> dquote \<notin> set f \<Longrightarrow> csvFields False [] f = [f]"
  using csvFields_plain_run[of f "[]" "[]"] by simp

lemma csvFields_escaped_cell:
  assumes "escapeCSVField (Some f) = Inr e"
  shows "csvFields False [] (e @ comma # rest) = f # csvFields False [] rest"
proof (cases "comma \<in> set f \<or> newline \<in> set f \<or> dquote \<in> set f")
  case True
  with assms have e: "e = dquote # doubleQuotes f @ [dquote]" by auto
  have "csvFields False [] (e @ comma # rest)
      = csvFields True [] (doubleQuotes f @ dquote # comma # rest)"
    unfolding e by (simp add: csvFields_open del: csvFields.simps)
  also have "\<dots> = csvFields False f (comma # rest)"
    using csvFields_quoted_run[of "comma # rest" "[]" f] by simp
  also have "\<dots> = f # csvFields False [] rest"
    by (rule csvFields_comma)
  finally show ?thesis .
next
  case False
  with assms have "e = f" by auto
  with False show ?thesis by (simp add: csvFields_plain_cell del: csvFields.simps)
qed

lemma flagCell_clean: "comma \<notin> set (flagCell b) \<and> dquote \<notin> set (flagCell b)"
  by (simp add: flagCell_def js_def)

lemma csvFields_row:
  assumes "comma \<notin> set idc" "dquote \<notin> set idc"
    and "comma \<notin> set cat" "dquote \<notin> set cat"
    and "comma \<notin> set sl" "dquote \<notin> set sl"
    and "comma \<notin> set st" "dquote \<notin> set st"
    and "escapeCSVField (Some t) = Inr t'" "escapeCSVField (Some b) = Inr b'"
    and "escapeCSVField (Some mt) = Inr mt'" "escapeCSVField (Some md) = Inr md'"
  shows "csvFields False [] (joinWith [comma] [idc, cat, t', b', sl, st, mt', md', flagCell p])
           = [idc, cat, t, b, sl, st, mt, md, flagCell p]"
  using assms flagCell_clean[of p]
  by (simp add: csvFields_plain_cell csvFields_escaped_cell csvFields_last_cell
        del: csvFields.simps escapeCSVField.simps)

lemma escapeCSVField_Some: "\<exists>e. escapeCSVField (Some f) = Inr e"
  by simp

lemma parse_csvRow:
  assumes st: "storable a"
    and idc: "comma \<notin> set idc" "dquote \<notin> set idc"
    and idv: "(if idc \<noteq> [] then Some (parseInt idc) else None) = ArticleData.id_field a"
  shows "\<exists>line. csvRow idc a = Inr line \<and> parseCSVLine line = a"
proof -
  from st obtain c t b s mt md where f:
    "category_id a = CatString c" "ArticleData.title a = Some t" "ArticleData.body a = Some b"
    "ArticleData.slug a = Some s" "meta_title a = Some mt" "meta_description a = Some md"
    and cl: "clean c" "clean s" "clean (status a)" "status a \<noteq> []"
    by (auto simp: storable_def split: categoryId.splits option.splits)
  obtain t' b' mt' md' where e:
    "escapeCSVField (Some t) = Inr t'" "escapeCSVField (Some b) = Inr b'"
    "escapeCSVField (Some mt) = Inr mt'" "escapeCSVField (Some md) = Inr md'"
    using escapeCSVField_Some by metis
  let ?line = "joinWith [comma] [idc, c, t', b', s, status a, mt', md', flagCell (api_posted a)]"
  have row: "csvRow idc a = Inr ?line"
    by (simp add: csvRow_def f e del: escapeCSVField.simps)
  have cells: "csvFields False [] ?line = [idc, c, t, b, s, status a, mt, md, flagCell (api_posted a)]"
    using idc cl e by (intro csvFields_row) (simp_all add: clean_def)
  have flag: "(flagCell (api_posted a) = js ''1'') = api_posted a"
    by (simp add: flagCell_def js_def)
  have "parseCSVLine ?line = a"
    by (rule ArticleData.equality)
       (simp_all add: parseCSVLine_def Let_def cells fieldAt_def f cl idv flag
          del: joinWith.simps)
  with row show ?thesis by blast
qed

lemma storableId_cases:
  assumes "storableId i"
  obtains "i = None" | n where "i = Some (Num n)" "n \<noteq> 0" "\<bar>n\<bar> < 10 ^ 21"
  using assms by (cases i rule: storableId.cases) auto

lemma storableId_truthy: "storableId i \<Longrightarrow> truthyId i \<longleftrightarrow> i \<noteq> None"
  by (cases i rule: storableId.cases) auto

lemma idCell_truthy: "storableId i \<Longrightarrow> (if truthyId i then idCell i else []) = idCell i"
  by (cases i rule: storableId.cases) auto

lemma idCell_read:
  assumes "storableId i" "doubleId i"
  shows "clean (idCell i)"
    and "(if idCell i \<noteq> [] then Some (parseInt (idCell i)) else None) = i"
proof -
  from assms(1) have "clean (idCell i)
      \<and> (if idCell i \<noteq> [] then Some (parseInt (idCell i)) else None) = i"
  proof (cases rule: storableId_cases)
    case 1
    then show ?thesis by (simp add: clean_def)
  next
    case (2 n)
    with assms(2) have d: "isDouble n" by simp
    from numberToString_decimal[OF d 2(3)] 2(1) show ?thesis
      by (simp del: numberToString.simps)
  qed
  then show "clean (idCell i)"
    and "(if idCell i \<noteq> [] then Some (parseInt (idCell i)) else None) = i"
    by simp_all
qed

lemma appendLine_eq_updateLine: "storable a \<Longrightarrow> appendLine a = updateLine a"
  by (simp add: appendLine_def updateLine_def idCell_truthy storable_def)

lemma parse_updateLine:
  assumes "storable a" "doubleId (ArticleData.id_field a)"
  shows "\<exists>line. updateLine a = Inr line \<and> parseCSVLine line = a"
proof -
  from assms(1) have i: "storableId (ArticleData.id_field a)" by (simp add: storable_def)
  from idCell_read(1)[OF i assms(2)]
  have c: "comma \<notin> set (idCell (ArticleData.id_field a))"
    "dquote \<notin> set (idCell (ArticleData.id_field a))"
    by (simp_all add: clean_def)
  show ?thesis
    unfolding updateLine_def idCell_truthy[OF i]
    using assms(1) c idCell_read(2)[OF i assms(2)] by (rule parse_csvRow)
qed

subsection \<open>Lines and records\<close>

lemma quoteCount_Nil: "quoteCount [] = 0"
  by (simp add: quoteCount_def)

lemma quoteCount_append: "quoteCount (x @ y) = quoteCount x + quoteCount y"
  by (simp add: quoteCount_def)

lemma quoteCount_Cons: "quoteCount (c # x) = (if c = dquote then 1 else 0) + quoteCount x"
  by (simp add: quoteCount_def)

lemma quoteCount_none: "dquote \<notin> set x \<Longrightarrow> quoteCount x = 0"
  by (induction x) (auto simp: quoteCount_Cons quoteCount_Nil)

lemma quoteCount_pos_nonempty: "odd (quoteCount x) \<Longrightarrow> x \<noteq> []"
  by (auto simp: quoteCount_def)

lemma newlinesQuoted_append:
  "newlinesQuoted inside (x @ y)
     \<longleftrightarrow> newlinesQuoted inside x \<and> newlinesQuoted (inside \<noteq> odd (quoteCount x)) y"
proof (induction x arbitrary: inside)
  case Nil
  then show ?case by (simp add: quoteCount_Nil)
next
  case (Cons c x)
  show ?case
  proof (cases "c = dquote")
    case True
    have "(inside \<noteq> odd (quoteCount (c # x))) = ((\<not> inside) \<noteq> odd (quoteCount x))"
      using True by (cases inside) (simp_all add: quoteCount_Cons)
    with Cons[of "\<not> inside"] True show ?thesis by simp
  next
    case False
    then have "quoteCount (c # x) = quoteCount x" by (simp add: quoteCount_Cons)
    with Cons[of inside] False show ?thesis by auto
  qed
qed

lemma newlinesQuoted_newline:
  "newlinesQuoted inside (newline # x) \<longleftrightarrow> inside \<and> newlinesQuoted inside x"
  by simp

lemma newlinesQuoted_none: "newline \<notin> set x \<Longrightarrow> newlinesQuoted inside x"
  by (induction x arbitrary: inside) auto

lemma splitLines_nonempty: "splitLines s \<noteq> []"
  by (induction s) (auto split: list.splits)

lemma splitLines_one: "newline \<notin> set l \<Longrightarrow> splitLines l = [l]"
  by (induction l) auto

lemma splitLines_append_newline:
  "splitLines (a @ newline # b) = splitLines a @ splitLines b"
proof (induction a)
  case Nil
  then show ?case by simp
next
  case (Cons c a)
  obtain l ls where "splitLines a = l # ls"
    using splitLines_nonempty[of a] by (cases "splitLines a") auto
  with Cons show ?case by simp
qed

lemma joinRecords_one_record:
  assumes "cur \<noteq> [] \<longrightarrow> odd (quoteCount cur)"
    and "newlinesQuoted (odd (quoteCount cur)) x"
    and "even (quoteCount cur + quoteCount x)"
  shows "joinRecords cur (splitLines x @ L)
           = ((if cur \<noteq> [] then cur @ [newline] else cur) @ x) # joinRecords [] L"
  using assms
proof (induction "length x" arbitrary: x cur rule: less_induct)
  case less
  let ?pre = "if cur \<noteq> [] then cur @ [newline] else cur"
  have pre: "quoteCount ?pre = quoteCount cur"
    by (simp add: quoteCount_append quoteCount_Cons quoteCount_def)
  show ?case
  proof (cases "newline \<in> set x")
    case False
    then have "splitLines x = [x]" by (simp add: splitLines_one)
    moreover have "even (quoteCount (?pre @ x))"
      using less.prems(3) pre by (simp only: quoteCount_append)
    ultimately show ?thesis by (simp add: Let_def)
  next
    case True
    then obtain l x' where x: "x = l @ newline # x'" and l: "newline \<notin> set l"
      by (auto dest: split_list_first)
    let ?cur' = "?pre @ l"
    have sp: "splitLines x = l # splitLines x'"
      unfolding x by (simp add: splitLines_append_newline splitLines_one l)
    from less.prems(2) have nq: "(odd (quoteCount cur) \<noteq> odd (quoteCount l))"
      and nq': "newlinesQuoted (odd (quoteCount cur) \<noteq> odd (quoteCount l)) x'"
      unfolding x newlinesQuoted_append newlinesQuoted_newline by blast+
    have qc': "quoteCount ?cur' = quoteCount cur + quoteCount l"
      using pre by (simp only: quoteCount_append)
    have odd': "odd (quoteCount ?cur')"
      using nq unfolding qc' by auto
    then have ne: "?cur' \<noteq> []" by (rule quoteCount_pos_nonempty)
    have step: "joinRecords cur (splitLines x @ L) = joinRecords ?cur' (splitLines x' @ L)"
      unfolding sp using odd' by (simp add: Let_def odd_iff_mod_2_eq_one)
    have "joinRecords ?cur' (splitLines x' @ L)
        = ((if ?cur' \<noteq> [] then ?cur' @ [newline] else ?cur') @ x') # joinRecords [] L"
    proof (rule less.hyps)
      show "length x' < length x" unfolding x by simp
      show "?cur' \<noteq> [] \<longrightarrow> odd (quoteCount ?cur')" using odd' by simp
      have "odd (quoteCount ?cur') = (odd (quoteCount cur) \<noteq> odd (quoteCount l))"
        using nq odd' by blast
      with nq' show "newlinesQuoted (odd (quoteCount ?cur')) x'"
        by (simp only:)
      show "even (quoteCount ?cur' + quoteCount x')"
      proof -
        have "quoteCount x = quoteCount l + quoteCount x'"
          unfolding x by (simp add: quoteCount_append quoteCount_Cons)
        with less.prems(3) show ?thesis unfolding qc' by (simp only: add.assoc)
      qed
    qed
    also have "(if ?cur' \<noteq> [] then ?cur' @ [newline] else ?cur') @ x' = ?pre @ x"
      using ne unfolding x by simp
    finally show ?thesis using step by simp
  qed
qed

lemma joinRecords_rows:
  "\<forall>x \<in> set xs. newlinesQuoted False x \<and> even (quoteCount x) \<Longrightarrow>
     joinRecords [] (concat (map splitLines xs)) = xs"
proof (induction xs)
  case Nil
  then show ?case by simp
next
  case (Cons x xs)
  then have "joinRecords [] (splitLines x @ concat (map splitLines xs))
      = x # joinRecords [] (concat (map splitLines xs))"
    using joinRecords_one_record[of "[]" x "concat (map splitLines xs)"]
    by (simp add: quoteCount_def)
  with Cons show ?case by simp
qed

lemma splitLines_joinWith_Cons:
  "splitLines (joinWith [newline] (x # xs)) = splitLines x @ concat (map splitLines xs)"
proof (induction xs arbitrary: x)
  case Nil
  then show ?case by simp
next
  case (Cons y ys)
  have "joinWith [newline] (x # y # ys) = x @ newline # joinWith [newline] (y # ys)"
    by simp
  with Cons[of y] show ?case
    by (simp only: splitLines_append_newline list.map concat.simps)
qed

lemma trim_trailing_newline:
  assumes "s \<noteq> []" "\<not> isWhiteSpace (hd s)" "\<not> isWhiteSpace (last s)"
  shows "trim (s @ [newline]) = s"
proof -
  from assms obtain c cs where s: "s = c # cs" by (cases s) auto
  with assms have front: "dropWhile isWhiteSpace (s @ [newline]) = s @ [newline]" by simp
  obtain d ds where r: "rev s = d # ds" using assms(1) by (cases "rev s") auto
  with assms(1,3) have d: "\<not> isWhiteSpace d" by (simp add: last_rev[symmetric] hd_rev)
  have "dropWhile isWhiteSpace (rev (s @ [newline])) = rev s"
    by (simp add: isWhiteSpace_def r d[unfolded isWhiteSpace_def])
  then show ?thesis unfolding trim_def front by simp
qed

subsection \<open>The rows of storable records, and the whole file\<close>

lemma oneRecord_append: "oneRecord x \<Longrightarrow> oneRecord y \<Longrightarrow> oneRecord (x @ y)"
  by (simp add: oneRecord_def newlinesQuoted_append quoteCount_append)

lemma oneRecord_plain: "dquote \<notin> set x \<Longrightarrow> newline \<notin> set x \<Longrightarrow> oneRecord x"
  by (simp add: oneRecord_def newlinesQuoted_none quoteCount_none)

lemma quoteCount_doubleQuotes: "even (quoteCount (doubleQuotes f))"
  by (induction f) (simp_all add: doubleQuotes_Cons quoteCount_Cons quoteCount_Nil doubleQuotes_def)

lemma newlinesQuoted_doubleQuotes:
  "newlinesQuoted True (doubleQuotes f @ y) = newlinesQuoted True y"
  by (induction f) (simp_all add: doubleQuotes_Cons doubleQuotes_def)

lemma oneRecord_escaped:
  assumes "escapeCSVField (Some f) = Inr e"
  shows "oneRecord e"
proof (cases "comma \<in> set f \<or> newline \<in> set f \<or> dquote \<in> set f")
  case True
  with assms have e: "e = dquote # doubleQuotes f @ [dquote]" by auto
  have "newlinesQuoted False e"
    unfolding e using newlinesQuoted_doubleQuotes[of f "[dquote]"] by simp
  moreover have "even (quoteCount e)"
    unfolding e using quoteCount_doubleQuotes[of f]
    by (simp add: quoteCount_Cons quoteCount_append quoteCount_Nil)
  ultimately show ?thesis by (simp add: oneRecord_def)
next
  case False
  with assms have "e = f" by auto
  with False show ?thesis by (simp add: oneRecord_plain)
qed

lemma oneRecord_row:
  assumes "oneRecord c0" "oneRecord c1" "oneRecord c2" "oneRecord c3" "oneRecord c4"
    "oneRecord c5" "oneRecord c6" "oneRecord c7" "oneRecord c8"
  shows "oneRecord (joinWith [comma] [c0, c1, c2, c3, c4, c5, c6, c7, c8])"
proof -
  have sep: "oneRecord [comma]" by (simp add: oneRecord_plain)
  have "joinWith [comma] [c0, c1, c2, c3, c4, c5, c6, c7, c8]
      = c0 @ [comma] @ c1 @ [comma] @ c2 @ [comma] @ c3 @ [comma] @ c4 @ [comma] @ c5
        @ [comma] @ c6 @ [comma] @ c7 @ [comma] @ c8"
    by simp
  with assms sep show ?thesis
    by (simp only: oneRecord_append)
qed

lemma last_joinWith_row:
  "c8 \<noteq> [] \<Longrightarrow> last (joinWith [comma] [c0, c1, c2, c3, c4, c5, c6, c7, c8]) = last c8"
  by simp

lemma updateLine_shape:
  assumes st: "storable a" and dbl: "doubleId (ArticleData.id_field a)"
    and ul: "updateLine a = Inr line"
  shows "oneRecord line \<and> line \<noteq> [] \<and> \<not> isWhiteSpace (last line)"
proof -
  from st obtain c t b s mt md where f:
    "category_id a = CatString c" "ArticleData.title a = Some t" "ArticleData.body a = Some b"
    "ArticleData.slug a = Some s" "meta_title a = Some mt" "meta_description a = Some md"
    and cl: "clean c" "clean s" "clean (status a)"
    by (auto simp: storable_def split: categoryId.splits option.splits)
  obtain t' b' mt' md' where e:
    "escapeCSVField (Some t) = Inr t'" "escapeCSVField (Some b) = Inr b'"
    "escapeCSVField (Some mt) = Inr mt'" "escapeCSVField (Some md) = Inr md'"
    using escapeCSVField_Some by metis
  let ?idc = "idCell (ArticleData.id_field a)"
  let ?flag = "flagCell (api_posted a)"
  from st have i: "storableId (ArticleData.id_field a)" by (simp add: storable_def)
  have line: "line = joinWith [comma] [?idc, c, t', b', s, status a, mt', md', ?flag]"
    using ul unfolding updateLine_def idCell_truthy[OF i]
    by (simp add: csvRow_def f e del: escapeCSVField.simps joinWith.simps)
  have idc: "oneRecord ?idc"
    using idCell_read(1)[OF i dbl] by (intro oneRecord_plain) (simp_all add: clean_def)
  have flag: "oneRecord ?flag" "?flag \<noteq> []" "\<not> isWhiteSpace (last ?flag)"
    by (simp_all add: flagCell_def js_def oneRecord_plain isWhiteSpace_def)
  have "oneRecord line"
    unfolding line using idc cl e flag(1)
    by (intro oneRecord_row oneRecord_escaped[where e = t'] oneRecord_escaped[where e = b']
          oneRecord_escaped[where e = mt'] oneRecord_escaped[where e = md'])
       (simp_all add: oneRecord_plain clean_def del: escapeCSVField.simps)
  moreover have "line \<noteq> []" unfolding line by simp
  moreover have "\<not> isWhiteSpace (last line)"
    unfolding line using flag(2,3) by (simp add: last_joinWith_row del: joinWith.simps)
  ultimately show ?thesis by blast
qed

lemma mapThrowing_updateLine:
  "\<forall>a \<in> set rs. storable a \<and> doubleId (ArticleData.id_field a) \<Longrightarrow>
     \<exists>lines. mapThrowing updateLine rs = Inr lines \<and> map parseCSVLine lines = rs
       \<and> length lines = length rs
       \<and> (\<forall>l \<in> set lines. oneRecord l \<and> l \<noteq> [] \<and> \<not> isWhiteSpace (last l))"
proof (induction rs)
  case Nil
  then show ?case by simp
next
  case (Cons a rs)
  then obtain lines where ls: "mapThrowing updateLine rs = Inr lines"
      "map parseCSVLine lines = rs" "length lines = length rs"
      "\<forall>l \<in> set lines. oneRecord l \<and> l \<noteq> [] \<and> \<not> isWhiteSpace (last l)"
    by auto
  from Cons.prems have st: "storable a" "doubleId (ArticleData.id_field a)" by simp_all
  then obtain line where l: "updateLine a = Inr line" "parseCSVLine line = a"
    using parse_updateLine by blast
  with st have "oneRecord line \<and> line \<noteq> [] \<and> \<not> isWhiteSpace (last line)"
    using updateLine_shape by blast
  with ls l show ?case by simp
qed

lemma trim_trailing_newlines:
  assumes "s \<noteq> []" "\<not> isWhiteSpace (hd s)" "\<not> isWhiteSpace (last s)"
    and "\<forall>c \<in> set ws. isWhiteSpace c"
  shows "trim (s @ ws) = s"
proof -
  from assms obtain c cs where s: "s = c # cs" by (cases s) auto
  with assms have front: "dropWhile isWhiteSpace (s @ ws) = s @ ws" by simp
  obtain d ds where r: "rev s = d # ds" using assms(1) by (cases "rev s") auto
  with assms(1,3) have d: "\<not> isWhiteSpace d" by (simp add: last_rev[symmetric] hd_rev)
  have "dropWhile isWhiteSpace (rev ws @ rev s) = dropWhile isWhiteSpace (rev s)"
    using assms(4) by (intro dropWhile_append2) simp
  then have "dropWhile isWhiteSpace (rev (s @ ws)) = rev s"
    using d r by simp
  then show ?thesis unfolding trim_def front by simp
qed

lemma joinWith_nonempty: "xs \<noteq> [] \<Longrightarrow> last xs \<noteq> [] \<Longrightarrow> joinWith sep xs \<noteq> []"
  by (induction sep xs rule: joinWith.induct) auto

lemma last_joinWith:
  "xs \<noteq> [] \<Longrightarrow> last xs \<noteq> [] \<Longrightarrow> last (joinWith sep xs) = last (last xs)"
proof (induction sep xs rule: joinWith.induct)
  case (3 sep x y ys)
  then have "joinWith sep (y # ys) \<noteq> []" by (intro joinWith_nonempty) simp_all
  with 3 show ?case by simp
qed simp_all

lemma headerLine_facts:
  "csvHeader = headerLine @ [newline]" "headerLine \<noteq> []" "\<not> isWhiteSpace (hd headerLine)"
  "\<not> isWhiteSpace (last headerLine)" "newline \<notin> set headerLine"
  by (simp_all add: csvHeader_def headerLine_def js_def isWhiteSpace_def)

lemma read_rewritten:
  assumes "\<forall>a \<in> set rs. storable a \<and> doubleId (ArticleData.id_field a)"
  shows "\<exists>content. rewriteCSV rs = Inr content
           \<and> readArticlesFromCSV (fs(filePath \<mapsto> content)) filePath = rs"
proof -
  from assms obtain lines where ls: "mapThrowing updateLine rs = Inr lines"
      "map parseCSVLine lines = rs" "length lines = length rs"
      "\<forall>l \<in> set lines. oneRecord l \<and> l \<noteq> [] \<and> \<not> isWhiteSpace (last l)"
    using mapThrowing_updateLine by blast
  let ?content = "csvHeader @ joinWith [newline] lines @ [newline]"
  have rw: "rewriteCSV rs = Inr ?content" by (simp add: rewriteCSV_def ls(1))
  have "readArticlesFromCSV (fs(filePath \<mapsto> ?content)) filePath = rs"
  proof (cases "lines = []")
    case True
    with ls(3) have rs: "rs = []" by simp
    have t: "trim (headerLine @ [newline, newline]) = headerLine"
      using headerLine_facts(2,3,4)
      by (intro trim_trailing_newlines) (simp_all add: isWhiteSpace_def)
    have c: "?content = headerLine @ [newline, newline]"
      unfolding True headerLine_facts(1) by simp
    have "trim ?content = headerLine" unfolding c by (rule t)
    then show ?thesis
      by (simp add: readArticlesFromCSV_def rs splitLines_one headerLine_facts(5))
  next
    case False
    let ?J = "joinWith [newline] lines"
    let ?s = "headerLine @ newline # ?J"
    from False ls(4) have lastl: "last lines \<noteq> []" "\<not> isWhiteSpace (last (last lines))"
      by (simp_all add: last_in_set)
    have J: "?J \<noteq> []" "last ?J = last (last lines)"
      using False lastl(1) by (simp_all add: joinWith_nonempty last_joinWith)
    have c: "?content = ?s @ [newline]" by (simp add: headerLine_facts(1))
    have "trim (?s @ [newline]) = ?s"
      using headerLine_facts J lastl
      by (intro trim_trailing_newlines) (simp_all add: isWhiteSpace_def)
    then have tr: "trim ?content = ?s" unfolding c .
    obtain l0 ls0 where l0: "lines = l0 # ls0" using False by (cases lines) auto
    have sp: "splitLines ?s = headerLine # concat (map splitLines lines)"
      unfolding splitLines_append_newline l0 splitLines_joinWith_Cons
      by (simp add: splitLines_one headerLine_facts(5))
    have ne: "concat (map splitLines lines) \<noteq> []"
      unfolding l0 using splitLines_nonempty[of l0] by simp
    have jr: "joinRecords [] (concat (map splitLines lines)) = lines"
      using ls(4) by (intro joinRecords_rows) (simp add: oneRecord_def)
    define L where "L = splitLines (trim ?content)"
    have L: "L = headerLine # concat (map splitLines lines)"
      unfolding L_def tr sp ..
    obtain m ms where m: "concat (map splitLines lines) = m # ms"
      using ne by (cases "concat (map splitLines lines)") auto
    have "readArticlesFromCSV (fs(filePath \<mapsto> ?content)) filePath
        = (if length L \<le> 1 then [] else map parseCSVLine (joinRecords [] (tl L)))"
      unfolding readArticlesFromCSV_def L_def
      by (simp only: fun_upd_same option.case Let_def)
    also have "\<dots> = map parseCSVLine (joinRecords [] (concat (map splitLines lines)))"
      unfolding L m by simp
    finally have "readArticlesFromCSV (fs(filePath \<mapsto> ?content)) filePath
        = map parseCSVLine (joinRecords [] (concat (map splitLines lines)))" .
    then show ?thesis by (simp add: jr ls(2))
  qed
  with rw show ?thesis by blast
qed


subsection \<open>The identifiers the reader returns are doubles\<close>

lemma doubleId_toNumber: "doubleId (Some (toNumber i))"
  by (cases "toNumber i") (simp_all add: toNumber_isDouble)

lemma doubleId_parseInt: "doubleId (Some (parseInt f))"
  by (simp add: parseInt_def Let_def doubleId_toNumber)

lemma doubleId_parseCSVLine: "doubleId (ArticleData.id_field (parseCSVLine line))"
  by (simp add: parseCSVLine_def Let_def doubleId_parseInt split: option.splits)

lemma doubleId_read:
  "a \<in> set (readArticlesFromCSV fs filePath) \<Longrightarrow> doubleId (ArticleData.id_field a)"
  by (auto simp: readArticlesFromCSV_def Let_def doubleId_parseCSVLine
        split: option.splits if_splits)

subsection \<open>Appending one record after the other\<close>

lemma joinWith_lines:
  "lines \<noteq> [] \<Longrightarrow> joinWith [newline] lines @ [newline] = concat (map (\<lambda>l. l @ [newline]) lines)"
  by (induction "[newline]" lines rule: joinWith.induct) simp_all

lemma appendAll_rows:
  assumes "\<forall>a \<in> set rs. storable a \<and> ArticleData.id_field a \<noteq> None"
    and "mapThrowing updateLine rs = Inr lines"
  shows "appendAll (fs(filePath \<mapsto> c)) filePath rs
           = (Inr rs, fs(filePath \<mapsto> c @ concat (map (\<lambda>l. l @ [newline]) lines)))"
  using assms
proof (induction rs arbitrary: c lines)
  case Nil
  then show ?case by simp
next
  case (Cons a rs)
  from Cons.prems(1) have st: "storable a" and i: "ArticleData.id_field a \<noteq> None" by simp_all
  from st have si: "storableId (ArticleData.id_field a)" by (simp add: storable_def)
  with i have t: "truthyId (ArticleData.id_field a)" by (simp add: storableId_truthy)
  from Cons.prems(2) obtain l ls where l: "updateLine a = Inr l"
      and ls: "mapThrowing updateLine rs = Inr ls" and lines: "lines = l # ls"
    by (auto split: sum.splits)
  from l st have al: "appendLine a = Inr l" by (simp add: appendLine_eq_updateLine)
  have step: "appendArticleToCSV (fs(filePath \<mapsto> c)) filePath a
      = (Inr a, fs(filePath \<mapsto> c @ l @ [newline]))"
    by (simp add: appendArticleToCSV_def t al appendFile_def)
  from Cons.prems(1) have "\<forall>a \<in> set rs. storable a \<and> ArticleData.id_field a \<noteq> None" by simp
  from Cons.IH[OF this ls, of "c @ l @ [newline]"]
  have ih: "appendAll (fs(filePath \<mapsto> c @ l @ [newline])) filePath rs
      = (Inr rs, fs(filePath \<mapsto> c @ concat (map (\<lambda>l. l @ [newline]) lines)))"
    by (simp only: lines list.map concat.simps append_assoc)
  show ?case
    by (simp only: appendAll.simps step ih prod.case sum.case)
qed

subsection \<open>Evaluating the store on concrete files\<close>

lemmas store_eval = readArticlesFromCSV_def trim_def isWhiteSpace_def Let_def quoteCount_def
  parseCSVLine_def fieldAt_def parseInt_def isDigit_def digitsValue_def js_def csvHeader_def
  rewriteCSV_def updateLine_def appendLine_def csvRow_def doubleQuotes_def flagCell_def
  showInt_def digits.simps toNumber_safe showDouble_safe

lemma exponentOf_eval:
  "m < 2 ^ 53 \<Longrightarrow> exponentOf m = 0"
  "\<not> m < 2 ^ 53 \<Longrightarrow> exponentOf m = Suc (exponentOf (m div 2))"
  by (subst exponentOf.simps, simp)+

lemma shortestDecimal_eval:
  "u \<le> 1 \<Longrightarrow> shortestDecimal v u = v"
  "\<not> u \<le> 1 \<Longrightarrow> roundToDouble ((v div u) * u) = v
     \<Longrightarrow> roundToDouble ((v div u) * u + u) \<noteq> v \<or> v - (v div u) * u < (v div u) * u + u - v
          \<or> (v - (v div u) * u = (v div u) * u + u - v \<and> even (v div u))
     \<Longrightarrow> shortestDecimal v u = (v div u) * u"
  "\<not> u \<le> 1 \<Longrightarrow> \<not> (roundToDouble ((v div u) * u) = v
     \<and> (roundToDouble ((v div u) * u + u) \<noteq> v \<or> v - (v div u) * u < (v div u) * u + u - v
          \<or> (v - (v div u) * u = (v div u) * u + u - v \<and> even (v div u))))
     \<Longrightarrow> roundToDouble ((v div u) * u + u) = v
     \<Longrightarrow> shortestDecimal v u = (v div u) * u + u"
  "\<not> u \<le> 1 \<Longrightarrow> roundToDouble ((v div u) * u) \<noteq> v
     \<Longrightarrow> roundToDouble ((v div u) * u + u) \<noteq> v
     \<Longrightarrow> shortestDecimal v u = shortestDecimal v (u div 10)"
  by (subst shortestDecimal.simps, simp add: Let_def)+

lemmas number_eval = exponentOf_eval shortestDecimal_eval roundToDouble_def Let_def
  digits.simps showDouble_def dropTrailingZeros_def toNumber_def doubleLimit_def js_def

lemma read_storeFile:
  "readArticlesFromCSV (Map.empty(''article.csv'' \<mapsto> storeFile)) ''article.csv''
     = [firstRecord, secondRecord (js ''s-2'')]"
  by (simp add: store_eval storeFile_def firstRecord_def secondRecord_def)

lemma read_storeFileWithoutLastRow:
  "readArticlesFromCSV (Map.empty(''article.csv'' \<mapsto> storeFileWithoutLastRow)) ''article.csv''
     = [firstRecord]"
  by (simp add: store_eval storeFileWithoutLastRow_def firstRecord_def)

lemma read_quotedSlugFile:
  "readArticlesFromCSV (Map.empty(''article.csv'' \<mapsto> quotedSlugFile)) ''article.csv''
     = [firstRecord, secondRecord (js ''x,y'')]"
  by (simp add: store_eval quotedSlugFile_def firstRecord_def secondRecord_def)

lemma rewrite_quotedSlug:
  "rewriteCSV [firstRecord, secondRecord (js ''x,y'')]
     = Inr (csvHeader
            @ js ''1,3,T,\"a,\"\"b\"\"'' @ [newline] @ js ''c\",s-1,draft,M,D,0'' @ [newline]
            @ js ''2,4,T2,B2,x,y,published,M2,D2,1'' @ [newline])"
  by (simp add: store_eval firstRecord_def secondRecord_def)

lemma read_rewritten_quotedSlug:
  "readArticlesFromCSV
     (Map.empty(''article.csv'' \<mapsto> csvHeader
            @ js ''1,3,T,\"a,\"\"b\"\"'' @ [newline] @ js ''c\",s-1,draft,M,D,0'' @ [newline]
            @ js ''2,4,T2,B2,x,y,published,M2,D2,1'' @ [newline])) ''article.csv''
     = [firstRecord, shiftedSecondRecord]"
  by (simp add: store_eval firstRecord_def shiftedSecondRecord_def)

lemma storable_examples:
  "storable firstRecord" "storable (secondRecord (js ''s-2''))"
  "storable (firstRecord\<lparr>api_posted := True\<rparr>)"
  by (simp_all add: storable_def clean_def firstRecord_def secondRecord_def js_def)


lemma shifted_differs: "shiftedSecondRecord \<noteq> secondRecord (js ''x,y'')"
  by (simp add: shiftedSecondRecord_def secondRecord_def js_def)

text \<open>The file \<open>quotedSlugFile\<close> is what the store itself writes when the slug of the
  second record is the text \<open>"x,y"\<close> with its quotes.\<close>

lemma quotedSlugFile_written_by_append:
  "appendLine (secondRecord (js ''\"x,y\"'')) = Inr (js ''2,4,T2,B2,\"x,y\",published,M2,D2,1'')"
  by (simp add: store_eval secondRecord_def)

text \<open>An identifier from \<open>10^21\<close> on is written in exponent notation and read back as
  its first digit.\<close>

lemma read_largeIdFile:
  "readArticlesFromCSV (Map.empty(''article.csv'' \<mapsto> largeIdFile)) ''article.csv''
     = [exampleArticle (Some (Num 1000000000000000000000))]"
  by (simp add: store_eval number_eval largeIdFile_def exampleArticle_def)

lemma rewrite_largeId:
  "rewriteCSV [exampleArticle (Some (Num 1000000000000000000000))]
     = Inr (csvHeader @ js ''1e+21,3,T,B,t,draft,M,D,0'' @ [newline])"
  by (simp add: store_eval number_eval exampleArticle_def)

lemma read_rewritten_largeId:
  "readArticlesFromCSV
     (Map.empty(''article.csv'' \<mapsto> csvHeader @ js ''1e+21,3,T,B,t,draft,M,D,0'' @ [newline]))
     ''article.csv''
     = [exampleArticle (Some (Num 1))]"
  by (simp add: store_eval exampleArticle_def)


section \<open>Round trip of the article file\<close>

lemma storable_read:
  assumes "list_all storable (readArticlesFromCSV fs filePath)"
  shows "\<forall>a \<in> set (readArticlesFromCSV fs filePath).
           storable a \<and> doubleId (ArticleData.id_field a)"
  using assms doubleId_read[of _ fs filePath] by (simp add: list_all_iff)

lemma read_appended:
  assumes "\<forall>a \<in> set rs. storable a \<and> doubleId (ArticleData.id_field a)"
    and "\<forall>a \<in> set rs. ArticleData.id_field a \<noteq> None"
  shows "\<exists>fs'. appendAll (fs(filePath \<mapsto> csvHeader)) filePath rs = (Inr rs, fs')
           \<and> readArticlesFromCSV fs' filePath = rs"
proof -
  from assms(1) obtain lines where ls: "mapThrowing updateLine rs = Inr lines"
      "length lines = length rs"
    using mapThrowing_updateLine by blast
  from assms have "\<forall>a \<in> set rs. storable a \<and> ArticleData.id_field a \<noteq> None" by simp
  from appendAll_rows[OF this ls(1), of fs filePath csvHeader]
  have ap: "appendAll (fs(filePath \<mapsto> csvHeader)) filePath rs
      = (Inr rs, fs(filePath \<mapsto> csvHeader @ concat (map (\<lambda>l. l @ [newline]) lines)))" .
  have "readArticlesFromCSV
          (fs(filePath \<mapsto> csvHeader @ concat (map (\<lambda>l. l @ [newline]) lines))) filePath = rs"
  proof (cases "lines = []")
    case True
    with ls(2) have rs: "rs = []" by simp
    have "trim (headerLine @ [newline]) = headerLine"
      using headerLine_facts(2,3,4)
      by (intro trim_trailing_newlines) (simp_all add: isWhiteSpace_def)
    then show ?thesis
      unfolding True rs
      by (simp add: readArticlesFromCSV_def headerLine_facts(1) splitLines_one
            headerLine_facts(5))
  next
    case False
    from read_rewritten[OF assms(1), of fs filePath] ls(1)
    have "readArticlesFromCSV
            (fs(filePath \<mapsto> csvHeader @ joinWith [newline] lines @ [newline])) filePath = rs"
      by (simp add: rewriteCSV_def)
    then show ?thesis by (simp only: joinWith_lines[OF False])
  qed
  with ap show ?thesis by blast
qed

text \<open>
  Claim C1, as amended. Let every record that \<open>readArticlesFromCSV\<close> returns for the file
  be storable: the identifier is absent or a whole number other than 0 of magnitude below
  \<open>10^21\<close>, no text field is undefined, and \<open>category_id\<close>, \<open>slug\<close> and \<open>status\<close> hold no
  comma, no double quote and no line feed. Then writing these records with the store's
  serializers and reading again gives the same sequence of records, for both
  serializers: the rewrite of \<open>updateArticleInCSV\<close> (header and all rows) succeeds and
  its file reads back as the records; and when every record has an identifier, appending
  the records one after the other with \<open>appendArticleToCSV\<close> to a file that holds the
  header row returns them unchanged and leaves a file that reads back as the records.
  Title, body, meta title and meta description may hold commas, double quotes and line
  feeds.
\<close>

theorem read_rewrite_read_roundtrip:
  assumes "list_all storable (readArticlesFromCSV fs filePath)"
  shows "(\<exists>content. rewriteCSV (readArticlesFromCSV fs filePath) = Inr content
            \<and> readArticlesFromCSV (fs(filePath \<mapsto> content)) filePath
                = readArticlesFromCSV fs filePath)
         \<and> (list_all (\<lambda>a. ArticleData.id_field a \<noteq> None) (readArticlesFromCSV fs filePath) \<longrightarrow>
              (\<exists>fs'. appendAll (fs(target \<mapsto> csvHeader)) target (readArticlesFromCSV fs filePath)
                        = (Inr (readArticlesFromCSV fs filePath), fs')
                   \<and> readArticlesFromCSV fs' target = readArticlesFromCSV fs filePath))"
proof (intro conjI impI)
  note st = storable_read[OF assms]
  show "\<exists>content. rewriteCSV (readArticlesFromCSV fs filePath) = Inr content
            \<and> readArticlesFromCSV (fs(filePath \<mapsto> content)) filePath
                = readArticlesFromCSV fs filePath"
    using st by (rule read_rewritten)
  assume "list_all (\<lambda>a. ArticleData.id_field a \<noteq> None) (readArticlesFromCSV fs filePath)"
  then have "\<forall>a \<in> set (readArticlesFromCSV fs filePath). ArticleData.id_field a \<noteq> None"
    by (simp add: list_all_iff)
  with st show "\<exists>fs'. appendAll (fs(target \<mapsto> csvHeader)) target (readArticlesFromCSV fs filePath)
                        = (Inr (readArticlesFromCSV fs filePath), fs')
                   \<and> readArticlesFromCSV fs' target = readArticlesFromCSV fs filePath"
    by (rule read_appended)
qed

text \<open>The file \<open>storeFile\<close>: its first record has a body with a comma, two double quotes
  and a line feed. Its records are rewritten in place, and appended to a second file that
  holds the header.\<close>

theorem read_rewrite_read_roundtrip_witness:
  "list_all storable
     (readArticlesFromCSV (Map.empty(''article.csv'' \<mapsto> storeFile)) ''article.csv'')
   \<and> list_all (\<lambda>a. ArticleData.id_field a \<noteq> None)
     (readArticlesFromCSV (Map.empty(''article.csv'' \<mapsto> storeFile)) ''article.csv'')
   \<and> readArticlesFromCSV (Map.empty(''article.csv'' \<mapsto> storeFile)) ''article.csv''
       = [firstRecord, secondRecord (js ''s-2'')]
   \<and> ArticleData.body firstRecord = Some (js ''a,\"b\"'' @ [newline] @ js ''c'')
   \<and> (\<exists>content.
         rewriteCSV [firstRecord, secondRecord (js ''s-2'')] = Inr content
         \<and> readArticlesFromCSV (Map.empty(''article.csv'' \<mapsto> content)) ''article.csv''
             = [firstRecord, secondRecord (js ''s-2'')])
   \<and> (\<exists>fs'.
         appendAll (Map.empty(''article.csv'' \<mapsto> storeFile, ''copy.csv'' \<mapsto> csvHeader))
             ''copy.csv'' [firstRecord, secondRecord (js ''s-2'')]
           = (Inr [firstRecord, secondRecord (js ''s-2'')], fs')
         \<and> readArticlesFromCSV fs' ''copy.csv'' = [firstRecord, secondRecord (js ''s-2'')])"
proof -
  let ?fs = "Map.empty(''article.csv'' \<mapsto> storeFile)"
  have st: "list_all storable (readArticlesFromCSV ?fs ''article.csv'')"
    unfolding read_storeFile by (simp add: storable_examples)
  have ids: "list_all (\<lambda>a. ArticleData.id_field a \<noteq> None)
      (readArticlesFromCSV ?fs ''article.csv'')"
    unfolding read_storeFile by (simp add: firstRecord_def secondRecord_def)
  have b: "ArticleData.body firstRecord = Some (js ''a,\"b\"'' @ [newline] @ js ''c'')"
    by (simp add: firstRecord_def)
  from read_rewrite_read_roundtrip[OF st, of "''copy.csv''"] ids
  have "(\<exists>content.
         rewriteCSV [firstRecord, secondRecord (js ''s-2'')] = Inr content
         \<and> readArticlesFromCSV (?fs(''article.csv'' \<mapsto> content)) ''article.csv''
             = [firstRecord, secondRecord (js ''s-2'')])
   \<and> (\<exists>fs'.
         appendAll (?fs(''copy.csv'' \<mapsto> csvHeader))
             ''copy.csv'' [firstRecord, secondRecord (js ''s-2'')]
           = (Inr [firstRecord, secondRecord (js ''s-2'')], fs')
         \<and> readArticlesFromCSV fs' ''copy.csv'' = [firstRecord, secondRecord (js ''s-2'')])"
    unfolding read_storeFile by blast
  then have "(\<exists>content.
         rewriteCSV [firstRecord, secondRecord (js ''s-2'')] = Inr content
         \<and> readArticlesFromCSV (Map.empty(''article.csv'' \<mapsto> content)) ''article.csv''
             = [firstRecord, secondRecord (js ''s-2'')])
   \<and> (\<exists>fs'.
         appendAll (Map.empty(''article.csv'' \<mapsto> storeFile, ''copy.csv'' \<mapsto> csvHeader))
             ''copy.csv'' [firstRecord, secondRecord (js ''s-2'')]
           = (Inr [firstRecord, secondRecord (js ''s-2'')], fs')
         \<and> readArticlesFromCSV fs' ''copy.csv'' = [firstRecord, secondRecord (js ''s-2'')])"
    by simp
  with st ids b show ?thesis
    unfolding read_storeFile by (intro conjI) simp_all
qed

text \<open>
  The claim as stated fails on \<open>quotedSlugFile\<close>, a well-formed CSV file whose second row
  quotes the slug \<open>x,y\<close>: the serializer writes the slug without quotes, and the second
  record comes back with its cells shifted.
\<close>

theorem roundtrip_fails_for_quoted_slug:
  "readArticlesFromCSV (Map.empty(''article.csv'' \<mapsto> quotedSlugFile)) ''article.csv''
     = [firstRecord, secondRecord (js ''x,y'')]
   \<and> (\<exists>content.
         rewriteCSV (readArticlesFromCSV (Map.empty(''article.csv'' \<mapsto> quotedSlugFile)) ''article.csv'')
           = Inr content
         \<and> readArticlesFromCSV (Map.empty(''article.csv'' \<mapsto> content)) ''article.csv''
             = [firstRecord, shiftedSecondRecord]
         \<and> readArticlesFromCSV (Map.empty(''article.csv'' \<mapsto> content)) ''article.csv''
             \<noteq> readArticlesFromCSV (Map.empty(''article.csv'' \<mapsto> quotedSlugFile)) ''article.csv'')"
  unfolding read_quotedSlugFile rewrite_quotedSlug
  using read_rewritten_quotedSlug shifted_differs by simp


section \<open>Updating a record\<close>

lemma findIndex_None: "findIndex P xs = None \<longleftrightarrow> (\<forall>x \<in> set xs. \<not> P x)"
  by (induction xs) auto

lemma findIndex_Some:
  "findIndex P xs = Some i \<Longrightarrow> i < length xs \<and> P (xs ! i) \<and> (\<forall>j < i. \<not> P (xs ! j))"
proof (induction xs arbitrary: i)
  case Nil
  then show ?case by simp
next
  case (Cons x xs)
  show ?case
  proof (cases "P x")
    case True
    with Cons.prems show ?thesis by simp
  next
    case False
    with Cons.prems obtain k where k: "findIndex P xs = Some k" "i = Suc k" by auto
    from Cons.IH[OF k(1)] False k(2) show ?thesis
      by (auto simp: nth_Cons split: nat.splits)
  qed
qed

text \<open>
  Claim C3. For every file system, path and identifier that no record read from the file
  has (the file may also be missing), \<open>updateArticleInCSV\<close> throws the error
  \<open>Article with id N not found in CSV\<close> and the file system is unchanged: the article
  file, like every other file, has the content it had, byte for byte.
\<close>

theorem update_of_unknown_id_fails_and_writes_nothing:
  assumes "list_all (\<lambda>a. \<not> strictEqId (ArticleData.id_field a) ident)
             (readArticlesFromCSV fs filePath)"
  shows "updateArticleInCSV fs filePath ident updates
           = (Inl (Error (notFoundMessage ident)), fs)"
proof -
  from assms have "findIndex (\<lambda>a. strictEqId (ArticleData.id_field a) ident)
      (readArticlesFromCSV fs filePath) = None"
    by (simp add: findIndex_None list_all_iff)
  then show ?thesis by (simp add: updateArticleInCSV_def)
qed

text \<open>The test "should throw error if article not found", on \<open>storeFile\<close>.\<close>

theorem update_of_unknown_id_witness:
  "list_all (\<lambda>a. \<not> strictEqId (ArticleData.id_field a) (Num 999))
     (readArticlesFromCSV (Map.empty(''article.csv'' \<mapsto> storeFile)) ''article.csv'')
   \<and> updateArticleInCSV (Map.empty(''article.csv'' \<mapsto> storeFile)) ''article.csv'' (Num 999)
        markPosted
       = (Inl (Error (js ''Article with id 999 not found in CSV'')),
          Map.empty(''article.csv'' \<mapsto> storeFile))"
proof -
  have h: "list_all (\<lambda>a. \<not> strictEqId (ArticleData.id_field a) (Num 999))
     (readArticlesFromCSV (Map.empty(''article.csv'' \<mapsto> storeFile)) ''article.csv'')"
    unfolding read_storeFile by (simp add: firstRecord_def secondRecord_def)
  have m: "notFoundMessage (Num 999) = js ''Article with id 999 not found in CSV''"
    by (simp add: notFoundMessage_def showDouble_safe digits.simps js_def)
  from update_of_unknown_id_fails_and_writes_nothing[OF h, of markPosted] h m
  show ?thesis by simp
qed

lemma applyUpdates_frame:
  "upd_id u = None \<Longrightarrow> ArticleData.id_field (applyUpdates a u) = ArticleData.id_field a"
  "upd_category_id u = None \<Longrightarrow> category_id (applyUpdates a u) = category_id a"
  "upd_title u = None \<Longrightarrow> ArticleData.title (applyUpdates a u) = ArticleData.title a"
  "upd_body u = None \<Longrightarrow> ArticleData.body (applyUpdates a u) = ArticleData.body a"
  "upd_slug u = None \<Longrightarrow> ArticleData.slug (applyUpdates a u) = ArticleData.slug a"
  "upd_status u = None \<Longrightarrow> status (applyUpdates a u) = status a"
  "upd_meta_title u = None \<Longrightarrow> meta_title (applyUpdates a u) = meta_title a"
  "upd_meta_description u = None \<Longrightarrow> meta_description (applyUpdates a u) = meta_description a"
  "upd_api_posted u = None \<Longrightarrow> api_posted (applyUpdates a u) = api_posted a"
  by (simp_all add: applyUpdates_def)

text \<open>
  Claim C4, as amended. Let the identifier belong to a record of the file (\<open>index\<close> is
  the first such record), let the updates not name \<open>id\<close>, and let the records that the
  update writes be storable: the other records as they were read, and the targeted record
  with the updates applied (what the targeted record held before in the fields that the
  updates replace does not matter). Then \<open>updateArticleInCSV\<close> returns normally, no other
  file changes, and reading the file again gives the records read before with the record
  at \<open>index\<close> replaced by its update; every field the updates do not name, and the
  identifier, is in that record what it was.
\<close>

theorem update_changes_only_the_named_fields_of_the_target:
  assumes "findIndex (\<lambda>a. strictEqId (ArticleData.id_field a) ident)
           (readArticlesFromCSV fs filePath) = Some index"
    and "upd_id updates = None"
    and "list_all storable
           ((readArticlesFromCSV fs filePath)
              [index := applyUpdates (readArticlesFromCSV fs filePath ! index) updates])"
  shows "\<exists>fs'. updateArticleInCSV fs filePath ident updates = (Inr (), fs')
           \<and> (\<forall>other. other \<noteq> filePath \<longrightarrow> fs' other = fs other)
           \<and> readArticlesFromCSV fs' filePath
               = (readArticlesFromCSV fs filePath)
                   [index := applyUpdates (readArticlesFromCSV fs filePath ! index) updates]
           \<and> ArticleData.id_field (readArticlesFromCSV fs' filePath ! index)
               = ArticleData.id_field (readArticlesFromCSV fs filePath ! index)
           \<and> (upd_category_id updates = None \<longrightarrow>
                category_id (readArticlesFromCSV fs' filePath ! index)
                  = category_id (readArticlesFromCSV fs filePath ! index))
           \<and> (upd_title updates = None \<longrightarrow>
                ArticleData.title (readArticlesFromCSV fs' filePath ! index)
                  = ArticleData.title (readArticlesFromCSV fs filePath ! index))
           \<and> (upd_body updates = None \<longrightarrow>
                ArticleData.body (readArticlesFromCSV fs' filePath ! index)
                  = ArticleData.body (readArticlesFromCSV fs filePath ! index))
           \<and> (upd_slug updates = None \<longrightarrow>
                ArticleData.slug (readArticlesFromCSV fs' filePath ! index)
                  = ArticleData.slug (readArticlesFromCSV fs filePath ! index))
           \<and> (upd_status updates = None \<longrightarrow>
                status (readArticlesFromCSV fs' filePath ! index)
                  = status (readArticlesFromCSV fs filePath ! index))
           \<and> (upd_meta_title updates = None \<longrightarrow>
                meta_title (readArticlesFromCSV fs' filePath ! index)
                  = meta_title (readArticlesFromCSV fs filePath ! index))
           \<and> (upd_meta_description updates = None \<longrightarrow>
                meta_description (readArticlesFromCSV fs' filePath ! index)
                  = meta_description (readArticlesFromCSV fs filePath ! index))
           \<and> (upd_api_posted updates = None \<longrightarrow>
                api_posted (readArticlesFromCSV fs' filePath ! index)
                  = api_posted (readArticlesFromCSV fs filePath ! index))"
proof -
  let ?rs = "readArticlesFromCSV fs filePath"
  let ?new = "applyUpdates (?rs ! index) updates"
  from findIndex_Some[OF assms(1)] have i: "index < length ?rs" by simp
  then have old: "?rs ! index \<in> set ?rs" by simp
  have idn: "ArticleData.id_field ?new = ArticleData.id_field (?rs ! index)"
    using assms(2) by (rule applyUpdates_frame(1))
  have "\<forall>a \<in> set (?rs[index := ?new]). storable a \<and> doubleId (ArticleData.id_field a)"
  proof
    fix a assume a: "a \<in> set (?rs[index := ?new])"
    then have "a = ?new \<or> a \<in> set ?rs"
      using set_update_subset_insert[of ?rs index ?new] by auto
    then have "doubleId (ArticleData.id_field a)"
      using doubleId_read[OF old] doubleId_read[of a fs filePath] idn by auto
    moreover from a assms(3) have "storable a" by (simp add: list_all_iff)
    ultimately show "storable a \<and> doubleId (ArticleData.id_field a)" by simp
  qed
  then obtain content where c: "rewriteCSV (?rs[index := ?new]) = Inr content"
      "readArticlesFromCSV (fs(filePath \<mapsto> content)) filePath = ?rs[index := ?new]"
    using read_rewritten[of "?rs[index := ?new]" fs filePath] by blast
  have u: "updateArticleInCSV fs filePath ident updates = (Inr (), fs(filePath \<mapsto> content))"
    by (simp add: updateArticleInCSV_def assms(1) c(1))
  have n: "readArticlesFromCSV (fs(filePath \<mapsto> content)) filePath ! index = ?new"
    unfolding c(2) using i by simp
  show ?thesis
    using i
    by (intro exI[of _ "fs(filePath \<mapsto> content)"])
       (simp add: u c(2) applyUpdates_frame assms(2))
qed

text \<open>The test "should preserve other articles when updating", on \<open>storeFile\<close>; and an
  update that gives the second record of \<open>quotedSlugFile\<close> a slug without comma, after
  which every record written is storable.\<close>

theorem update_changes_only_the_named_fields_witness:
  "findIndex (\<lambda>a. strictEqId (ArticleData.id_field a) (Num 1))
         (readArticlesFromCSV (Map.empty(''article.csv'' \<mapsto> storeFile)) ''article.csv'') = Some 0
   \<and> upd_id markPosted = None
   \<and> list_all storable
        ((readArticlesFromCSV (Map.empty(''article.csv'' \<mapsto> storeFile)) ''article.csv'')
           [0 := applyUpdates
              (readArticlesFromCSV (Map.empty(''article.csv'' \<mapsto> storeFile)) ''article.csv'' ! 0)
              markPosted])
   \<and> (\<exists>fs'. updateArticleInCSV (Map.empty(''article.csv'' \<mapsto> storeFile)) ''article.csv''
               (Num 1) markPosted = (Inr (), fs')
          \<and> readArticlesFromCSV fs' ''article.csv''
              = [firstRecord\<lparr>api_posted := True\<rparr>, secondRecord (js ''s-2'')])
   \<and> findIndex (\<lambda>a. strictEqId (ArticleData.id_field a) (Num 2))
         (readArticlesFromCSV (Map.empty(''article.csv'' \<mapsto> quotedSlugFile)) ''article.csv'')
       = Some 1
   \<and> upd_id renameSlug = None
   \<and> \<not> storable
         (readArticlesFromCSV (Map.empty(''article.csv'' \<mapsto> quotedSlugFile)) ''article.csv'' ! 1)
   \<and> list_all storable
        ((readArticlesFromCSV (Map.empty(''article.csv'' \<mapsto> quotedSlugFile)) ''article.csv'')
           [1 := applyUpdates
              (readArticlesFromCSV (Map.empty(''article.csv'' \<mapsto> quotedSlugFile))
                 ''article.csv'' ! 1)
              renameSlug])
   \<and> (\<exists>fs'. updateArticleInCSV (Map.empty(''article.csv'' \<mapsto> quotedSlugFile)) ''article.csv''
               (Num 2) renameSlug = (Inr (), fs')
          \<and> readArticlesFromCSV fs' ''article.csv''
              = [firstRecord, secondRecord (js ''s-2'')])"
proof -
  let ?fs = "Map.empty(''article.csv'' \<mapsto> storeFile)"
  let ?qs = "Map.empty(''article.csv'' \<mapsto> quotedSlugFile)"
  have h2: "findIndex (\<lambda>a. strictEqId (ArticleData.id_field a) (Num 1))
         (readArticlesFromCSV ?fs ''article.csv'') = Some 0"
    unfolding read_storeFile by (simp add: firstRecord_def)
  have h3: "upd_id markPosted = None" by (simp add: markPosted_def)
  have ap: "applyUpdates firstRecord markPosted = firstRecord\<lparr>api_posted := True\<rparr>"
    by (simp add: applyUpdates_def markPosted_def firstRecord_def)
  have h4: "list_all storable
        ((readArticlesFromCSV ?fs ''article.csv'')
           [0 := applyUpdates (readArticlesFromCSV ?fs ''article.csv'' ! 0) markPosted])"
    unfolding read_storeFile by (simp add: ap storable_examples)
  from update_changes_only_the_named_fields_of_the_target[OF h2 h3 h4]
  obtain fs' where "updateArticleInCSV ?fs ''article.csv'' (Num 1) markPosted = (Inr (), fs')"
    "readArticlesFromCSV fs' ''article.csv''
       = (readArticlesFromCSV ?fs ''article.csv'')
           [0 := applyUpdates (readArticlesFromCSV ?fs ''article.csv'' ! 0) markPosted]"
    by blast
  then have w1: "\<exists>fs'. updateArticleInCSV ?fs ''article.csv'' (Num 1) markPosted = (Inr (), fs')
          \<and> readArticlesFromCSV fs' ''article.csv''
              = [firstRecord\<lparr>api_posted := True\<rparr>, secondRecord (js ''s-2'')]"
    unfolding read_storeFile by (simp add: ap)
  have g2: "findIndex (\<lambda>a. strictEqId (ArticleData.id_field a) (Num 2))
         (readArticlesFromCSV ?qs ''article.csv'') = Some 1"
    unfolding read_quotedSlugFile by (simp add: firstRecord_def secondRecord_def)
  have g3: "upd_id renameSlug = None" by (simp add: renameSlug_def)
  have rn: "applyUpdates (secondRecord (js ''x,y'')) renameSlug = secondRecord (js ''s-2'')"
    by (simp add: applyUpdates_def renameSlug_def secondRecord_def)
  have g0: "\<not> storable (readArticlesFromCSV ?qs ''article.csv'' ! 1)"
    unfolding read_quotedSlugFile
    by (simp add: storable_def clean_def secondRecord_def js_def)
  have g4: "list_all storable
        ((readArticlesFromCSV ?qs ''article.csv'')
           [1 := applyUpdates (readArticlesFromCSV ?qs ''article.csv'' ! 1) renameSlug])"
    unfolding read_quotedSlugFile by (simp add: rn storable_examples)
  from update_changes_only_the_named_fields_of_the_target[OF g2 g3 g4]
  obtain fs'' where "updateArticleInCSV ?qs ''article.csv'' (Num 2) renameSlug = (Inr (), fs'')"
    "readArticlesFromCSV fs'' ''article.csv''
       = (readArticlesFromCSV ?qs ''article.csv'')
           [1 := applyUpdates (readArticlesFromCSV ?qs ''article.csv'' ! 1) renameSlug]"
    by blast
  then have w2: "\<exists>fs'. updateArticleInCSV ?qs ''article.csv'' (Num 2) renameSlug = (Inr (), fs')
          \<and> readArticlesFromCSV fs' ''article.csv''
              = [firstRecord, secondRecord (js ''s-2'')]"
    unfolding read_quotedSlugFile by (simp add: rn)
  from h2 h3 h4 w1 g2 g3 g0 g4 w2 show ?thesis by (intro conjI)
qed

text \<open>
  The claim as stated fails on \<open>quotedSlugFile\<close>: updating \<open>api_posted\<close> of the record
  with identifier 1 rewrites the row of the record with identifier 2 with its slug
  unquoted, and that record, which the update did not target, comes back with another
  slug, status, meta title, meta description and \<open>api_posted\<close>.
\<close>

theorem update_changes_another_record_with_quoted_slug:
  "\<exists>fs'. updateArticleInCSV (Map.empty(''article.csv'' \<mapsto> quotedSlugFile)) ''article.csv''
           (Num 1) markPosted = (Inr (), fs')
      \<and> readArticlesFromCSV (Map.empty(''article.csv'' \<mapsto> quotedSlugFile)) ''article.csv'' ! 1
          = secondRecord (js ''x,y'')
      \<and> readArticlesFromCSV fs' ''article.csv'' ! 1 = shiftedSecondRecord
      \<and> readArticlesFromCSV fs' ''article.csv'' ! 1
          \<noteq> readArticlesFromCSV (Map.empty(''article.csv'' \<mapsto> quotedSlugFile)) ''article.csv'' ! 1"
proof -
  let ?fs = "Map.empty(''article.csv'' \<mapsto> quotedSlugFile)"
  let ?content = "csvHeader
            @ js ''1,3,T,\"a,\"\"b\"\"'' @ [newline] @ js ''c\",s-1,draft,M,D,1'' @ [newline]
            @ js ''2,4,T2,B2,x,y,published,M2,D2,1'' @ [newline]"
  have ap: "applyUpdates firstRecord markPosted = firstRecord\<lparr>api_posted := True\<rparr>"
    by (simp add: applyUpdates_def markPosted_def firstRecord_def)
  have rw: "rewriteCSV [firstRecord\<lparr>api_posted := True\<rparr>, secondRecord (js ''x,y'')] = Inr ?content"
    by (simp add: store_eval firstRecord_def secondRecord_def)
  let ?fs' = "Map.empty(''article.csv'' \<mapsto> ?content)"
  have u: "updateArticleInCSV ?fs ''article.csv'' (Num 1) markPosted = (Inr (), ?fs')"
  proof -
    have fi: "findIndex (\<lambda>a. strictEqId (ArticleData.id_field a) (Num 1))
        [firstRecord, secondRecord (js ''x,y'')] = Some 0"
      by (simp add: firstRecord_def)
    show ?thesis
      unfolding updateArticleInCSV_def read_quotedSlugFile Let_def fi
      by (simp add: ap rw)
  qed
  have rd: "readArticlesFromCSV ?fs' ''article.csv''
      = [firstRecord\<lparr>api_posted := True\<rparr>, shiftedSecondRecord]"
    by (simp add: store_eval firstRecord_def shiftedSecondRecord_def)
  show ?thesis
    unfolding read_quotedSlugFile
    by (rule exI[of _ ?fs']) (simp only: u rd, simp add: shifted_differs)
qed


section \<open>Appending a record\<close>

lemma finite_ids: "finite {n. Some (Num n) \<in> ArticleData.id_field ` set rs}"
proof -
  have "{n. Some (Num n) \<in> ArticleData.id_field ` set rs}
      = (\<lambda>n. Some (Num n)) -` (ArticleData.id_field ` set rs)"
    by auto
  moreover have "inj (\<lambda>n. Some (Num n))" by (simp add: inj_def)
  ultimately show ?thesis by (simp add: finite_vimageI)
qed

lemma ids_Cons:
  "{n. Some (Num n) \<in> ArticleData.id_field ` set (a # rs)}
     = (case ArticleData.id_field a of
          Some (Num k) \<Rightarrow> insert k {n. Some (Num n) \<in> ArticleData.id_field ` set rs}
        | _ \<Rightarrow> {n. Some (Num n) \<in> ArticleData.id_field ` set rs})"
  by (auto split: option.splits jsnumber.splits)

lemma maxId_step:
  assumes "0 \<le> m" "i \<noteq> Some PosInfinity"
  shows "(case i of
            Some n \<Rightarrow> if truthyId (Some n) \<and> greaterThan n (Num m) then n else Num m
          | None \<Rightarrow> Num m)
         = Num (case i of Some (Num k) \<Rightarrow> max m k | _ \<Rightarrow> m)"
proof (cases i)
  case None
  then show ?thesis by simp
next
  case (Some n)
  with assms show ?thesis by (cases n) auto
qed

lemma foldl_maxId:
  assumes "0 \<le> m" "\<forall>a \<in> set rs. ArticleData.id_field a \<noteq> Some PosInfinity"
  shows "foldl (\<lambda>mx a. case ArticleData.id_field a of
                      Some n \<Rightarrow> if truthyId (Some n) \<and> greaterThan n mx then n else mx
                    | None \<Rightarrow> mx) (Num m) rs
       = Num (Max (insert m {n. Some (Num n) \<in> ArticleData.id_field ` set rs}))"
  using assms
proof (induction rs arbitrary: m)
  case Nil
  then show ?case by simp
next
  case (Cons a rs)
  let ?S = "{n. Some (Num n) \<in> ArticleData.id_field ` set rs}"
  let ?m' = "case ArticleData.id_field a of Some (Num k) \<Rightarrow> max m k | _ \<Rightarrow> m"
  from Cons.prems have a: "ArticleData.id_field a \<noteq> Some PosInfinity"
    and rs: "\<forall>a \<in> set rs. ArticleData.id_field a \<noteq> Some PosInfinity"
    by simp_all
  have m': "0 \<le> ?m'"
    using Cons.prems(1) by (auto split: option.splits jsnumber.splits)
  have "Max (insert ?m' ?S) = Max (insert m {n. Some (Num n) \<in> ArticleData.id_field ` set (a # rs)})"
  proof (cases "\<exists>k. ArticleData.id_field a = Some (Num k)")
    case True
    then obtain k where k: "ArticleData.id_field a = Some (Num k)" by blast
    have "Max (insert (max m k) ?S) = Max (insert m (insert k ?S))"
      using finite_ids[of rs] by (cases "?S = {}") (simp_all add: max.assoc)
    then show ?thesis by (simp add: k ids_Cons del: set_simps)
  next
    case False
    then have "?m' = m" by (auto split: option.splits jsnumber.splits)
    moreover from False have "(case ArticleData.id_field a of
          Some (Num k) \<Rightarrow> insert k ?S | _ \<Rightarrow> ?S) = ?S"
      by (auto split: option.splits jsnumber.splits)
    then have "{n. Some (Num n) \<in> ArticleData.id_field ` set (a # rs)} = ?S"
      unfolding ids_Cons .
    ultimately show ?thesis by (simp del: set_simps)
  qed
  with Cons.IH[OF m' rs] show ?case
    by (simp add: maxId_step[OF Cons.prems(1) a] del: set_simps)
qed

lemma maxId_Max:
  "\<forall>a \<in> set rs. ArticleData.id_field a \<noteq> Some PosInfinity \<Longrightarrow>
     maxId rs = Num (Max (insert 0 {n. Some (Num n) \<in> ArticleData.id_field ` set rs}))"
  unfolding maxId_def by (rule foldl_maxId) simp_all

text \<open>
  What \<open>appendArticleToCSV\<close> assigns. For every record without a (truthy) identifier whose
  escaped text fields are strings, and every file whose identifiers, as read, are below
  \<open>2^53 - 1\<close>, the identifier assigned is one more than the greatest identifier among the
  records read, counting from 0, and so greater than each of them. The record is
  returned with the identifier, and its row is appended to the file.
\<close>

lemma append_assigns_one_more_than_the_greatest_identifier_read:
  assumes "\<not> truthyId (ArticleData.id_field article)"
    and "ArticleData.title article \<noteq> None" and "ArticleData.body article \<noteq> None"
    and "meta_title article \<noteq> None" and "meta_description article \<noteq> None"
    and "list_all (\<lambda>a. safeId (ArticleData.id_field a)) (readArticlesFromCSV fs filePath)"
  shows "\<exists>new line.
           new = 1 + Max (insert 0 {n. Some (Num n)
                   \<in> ArticleData.id_field ` set (readArticlesFromCSV fs filePath)})
           \<and> appendLine (article\<lparr>ArticleData.id_field := Some (Num new)\<rparr>) = Inr line
           \<and> appendArticleToCSV fs filePath article
               = (Inr (article\<lparr>ArticleData.id_field := Some (Num new)\<rparr>),
                  appendFile fs filePath (line @ [newline]))
           \<and> (\<forall>r \<in> set (readArticlesFromCSV fs filePath). \<forall>n.
                 ArticleData.id_field r = Some (Num n) \<longrightarrow> n < new)"
proof -
  let ?rs = "readArticlesFromCSV fs filePath"
  let ?S = "{n. Some (Num n) \<in> ArticleData.id_field ` set ?rs}"
  let ?new = "1 + Max (insert 0 ?S)"
  let ?a = "article\<lparr>ArticleData.id_field := Some (Num ?new)\<rparr>"
  from assms(6) have safe: "\<forall>a \<in> set ?rs. safeId (ArticleData.id_field a)"
    by (simp add: list_all_iff)
  from assms(2-5) obtain t b mt md where f:
    "ArticleData.title article = Some t" "ArticleData.body article = Some b"
    "meta_title article = Some mt" "meta_description article = Some md"
    by auto
  obtain t' b' mt' md' where e:
    "escapeCSVField (Some t) = Inr t'" "escapeCSVField (Some b) = Inr b'"
    "escapeCSVField (Some mt) = Inr mt'" "escapeCSVField (Some md) = Inr md'"
    using escapeCSVField_Some by metis
  then obtain line where line: "appendLine ?a = Inr line"
    by (simp add: appendLine_def csvRow_def f del: escapeCSVField.simps)
  have ninf: "\<forall>a \<in> set ?rs. ArticleData.id_field a \<noteq> Some PosInfinity"
    using safe by auto
  have le: "n \<le> Max (insert 0 ?S)" if "n \<in> insert 0 ?S" for n
    using finite_ids[of ?rs] that by (intro Max_ge) simp_all
  have "Max (insert 0 ?S) \<in> insert 0 ?S"
    using finite_ids[of ?rs] by (intro Max_in) simp_all
  then have "Max (insert 0 ?S) < 2 ^ 53 - 1"
  proof
    assume "Max (insert 0 ?S) = 0"
    then show ?thesis by simp
  next
    assume "Max (insert 0 ?S) \<in> ?S"
    then obtain r where "r \<in> set ?rs"
        "ArticleData.id_field r = Some (Num (Max (insert 0 ?S)))"
      by force
    with safe show ?thesis by force
  qed
  moreover have "0 \<le> Max (insert 0 ?S)" by (rule le) simp
  ultimately have "\<bar>Max (insert 0 ?S) + 1\<bar> < 2 ^ 53" by simp
  then have "toNumber (Max (insert 0 ?S) + 1) = Num (Max (insert 0 ?S) + 1)"
    by (rule toNumber_safe)
  then have mx: "plusOne (maxId ?rs) = Num ?new"
    by (simp add: maxId_Max[OF ninf] add.commute)
  have ap: "appendArticleToCSV fs filePath article
      = (Inr ?a, appendFile fs filePath (line @ [newline]))"
    unfolding appendArticleToCSV_def Let_def mx using assms(1) line by simp
  have lt: "\<forall>r \<in> set ?rs. \<forall>n. ArticleData.id_field r = Some (Num n) \<longrightarrow> n < ?new"
  proof (intro ballI allI impI)
    fix r n assume "r \<in> set ?rs" "ArticleData.id_field r = Some (Num n)"
    then have "n \<in> insert 0 ?S" by force
    then have "n \<le> Max (insert 0 ?S)" by (rule le)
    then show "n < ?new" by simp
  qed
  from line ap lt show ?thesis by blast
qed

lemma read_headerOnly:
  "readArticlesFromCSV (Map.empty(''article.csv'' \<mapsto> csvHeader)) ''article.csv'' = []"
  by (simp add: store_eval)

lemma read_exampleRow:
  "readArticlesFromCSV (Map.empty(''article.csv'' \<mapsto> exampleRow)) ''article.csv'' = []"
  "readArticlesFromCSV (Map.empty(''article.csv'' \<mapsto> csvHeader @ exampleRow)) ''article.csv''
     = [exampleArticle (Some (Num 1))]"
  "readArticlesFromCSV (Map.empty(''article.csv'' \<mapsto> exampleRow @ exampleRow)) ''article.csv''
     = [exampleArticle (Some (Num 1))]"
  by (simp_all add: store_eval exampleRow_def exampleArticle_def)

lemma appendLine_example:
  "appendLine (exampleArticle (Some (Num 1))) = Inr (js ''1,3,T,B,t,draft,M,D,0'')"
  "appendLine (exampleArticle (Some (Num 2))) = Inr (js ''2,3,T,B,t,draft,M,D,0'')"
  "appendLine (exampleArticle (Some (Num 3))) = Inr (js ''3,3,T,B,t,draft,M,D,0'')"
  by (simp_all add: store_eval exampleArticle_def)

lemma exampleArticle_id:
  "(exampleArticle None)\<lparr>ArticleData.id_field := i\<rparr> = exampleArticle i"
  by (simp add: exampleArticle_def)

text \<open>
  Claim C5. The first record appended to a store that does not exist yet is given the
  identifier 1, and so is the second: \<open>appendFileSync\<close> creates the file without a header
  row, \<open>readArticlesFromCSV\<close> always drops the first line of the file as the header, and
  so it reports no record when the next identifier is computed. The claim gives the
  second record \<open>max(existing) + 1 = 2\<close>. Reading the file after both appends returns one
  record. On a file that holds the header row, as the tests prepare it, the same two
  appends assign 1 and 2.
\<close>

theorem two_appends_to_a_missing_file_share_an_identifier:
  "appendArticleToCSV Map.empty ''article.csv'' (exampleArticle None)
     = (Inr (exampleArticle (Some (Num 1))), Map.empty(''article.csv'' \<mapsto> exampleRow))
   \<and> readArticlesFromCSV (Map.empty(''article.csv'' \<mapsto> exampleRow)) ''article.csv'' = []
   \<and> appendArticleToCSV (Map.empty(''article.csv'' \<mapsto> exampleRow)) ''article.csv''
        (exampleArticle None)
       = (Inr (exampleArticle (Some (Num 1))),
          Map.empty(''article.csv'' \<mapsto> exampleRow @ exampleRow))
   \<and> readArticlesFromCSV (Map.empty(''article.csv'' \<mapsto> exampleRow @ exampleRow)) ''article.csv''
       = [exampleArticle (Some (Num 1))]
   \<and> appendArticleToCSV (Map.empty(''article.csv'' \<mapsto> csvHeader)) ''article.csv''
        (exampleArticle None)
       = (Inr (exampleArticle (Some (Num 1))),
          Map.empty(''article.csv'' \<mapsto> csvHeader @ exampleRow))
   \<and> fst (appendArticleToCSV (Map.empty(''article.csv'' \<mapsto> csvHeader @ exampleRow))
        ''article.csv'' (exampleArticle None))
       = Inr (exampleArticle (Some (Num 2)))"
proof -
  have n1: "plusOne (maxId []) = Num 1"
    and n2: "plusOne (maxId [exampleArticle (Some (Num 1))]) = Num 2"
    by (simp_all add: maxId_def exampleArticle_def toNumber_safe)
  have r0: "readArticlesFromCSV Map.empty ''article.csv'' = []"
    by (simp add: readArticlesFromCSV_def)
  have f: "\<not> truthyId (ArticleData.id_field (exampleArticle None))"
    by (simp add: exampleArticle_def)
  have a1: "appendArticleToCSV Map.empty ''article.csv'' (exampleArticle None)
     = (Inr (exampleArticle (Some (Num 1))), Map.empty(''article.csv'' \<mapsto> exampleRow))"
    unfolding appendArticleToCSV_def Let_def r0 n1
    by (simp add: f exampleArticle_id appendLine_example appendFile_def exampleRow_def)
  have a2: "appendArticleToCSV (Map.empty(''article.csv'' \<mapsto> exampleRow)) ''article.csv''
        (exampleArticle None)
       = (Inr (exampleArticle (Some (Num 1))),
          Map.empty(''article.csv'' \<mapsto> exampleRow @ exampleRow))"
    unfolding appendArticleToCSV_def Let_def read_exampleRow n1
    by (simp add: f exampleArticle_id appendLine_example appendFile_def exampleRow_def)
  have a3: "appendArticleToCSV (Map.empty(''article.csv'' \<mapsto> csvHeader)) ''article.csv''
        (exampleArticle None)
       = (Inr (exampleArticle (Some (Num 1))),
          Map.empty(''article.csv'' \<mapsto> csvHeader @ exampleRow))"
    unfolding appendArticleToCSV_def Let_def read_headerOnly n1
    by (simp add: f exampleArticle_id appendLine_example appendFile_def exampleRow_def)
  have a4: "fst (appendArticleToCSV (Map.empty(''article.csv'' \<mapsto> csvHeader @ exampleRow))
        ''article.csv'' (exampleArticle None))
       = Inr (exampleArticle (Some (Num 2)))"
    unfolding appendArticleToCSV_def Let_def read_exampleRow n2
    by (simp add: f exampleArticle_id appendLine_example)
  from a1 read_exampleRow(1) a2 read_exampleRow(3) a3 a4 show ?thesis
    by (intro conjI)
qed

text \<open>
  The identifier is computed from the records the file holds when the record is
  appended; no counter is kept. \<open>storeFile\<close> holds the identifiers 1 and 2; once its last
  row is deleted, the next record appended is given the identifier 2 again.
\<close>

lemma deleted_greatest_identifier_is_assigned_again:
  "storeFile = storeFileWithoutLastRow @ js ''2,4,T2,B2,s-2,published,M2,D2,1'' @ [newline]
   \<and> map ArticleData.id_field
       (readArticlesFromCSV (Map.empty(''article.csv'' \<mapsto> storeFile)) ''article.csv'')
       = [Some (Num 1), Some (Num 2)]
   \<and> map ArticleData.id_field
       (readArticlesFromCSV (Map.empty(''article.csv'' \<mapsto> storeFileWithoutLastRow))
          ''article.csv'')
       = [Some (Num 1)]
   \<and> fst (appendArticleToCSV (Map.empty(''article.csv'' \<mapsto> storeFileWithoutLastRow))
        ''article.csv'' (exampleArticle None))
       = Inr (exampleArticle (Some (Num 2)))"
proof -
  have n: "plusOne (maxId [firstRecord]) = Num 2"
    by (simp add: maxId_def firstRecord_def toNumber_safe)
  have "fst (appendArticleToCSV (Map.empty(''article.csv'' \<mapsto> storeFileWithoutLastRow))
        ''article.csv'' (exampleArticle None))
       = Inr (exampleArticle (Some (Num 2)))"
    unfolding appendArticleToCSV_def read_storeFileWithoutLastRow Let_def n
    by (simp add: exampleArticle_id appendLine_example) (simp add: exampleArticle_def)
  moreover have "storeFile
      = storeFileWithoutLastRow @ js ''2,4,T2,B2,s-2,published,M2,D2,1'' @ [newline]"
    by (simp add: storeFile_def storeFileWithoutLastRow_def)
  ultimately show ?thesis
    unfolding read_storeFile read_storeFileWithoutLastRow
    by (simp add: firstRecord_def secondRecord_def)
qed

text \<open>
  The sum \<open>maxId + 1\<close> is a sum of doubles. From the identifier \<open>2^53\<close> on it returns
  \<open>maxId\<close>: the record appended to a file that holds the identifier \<open>9007199254740992\<close> is
  given that identifier again.
\<close>

lemma identifier_2_53_is_assigned_again:
  "map ArticleData.id_field
     (readArticlesFromCSV (Map.empty(''article.csv'' \<mapsto> unsafeIdFile)) ''article.csv'')
     = [Some (Num 9007199254740992)]
   \<and> appendArticleToCSV (Map.empty(''article.csv'' \<mapsto> unsafeIdFile)) ''article.csv''
        (exampleArticle None)
       = (Inr (exampleArticle (Some (Num 9007199254740992))),
          Map.empty(''article.csv'' \<mapsto> unsafeIdFile
             @ js ''9007199254740992,3,T,B,t,draft,M,D,0'' @ [newline]))"
proof -
  have r: "readArticlesFromCSV (Map.empty(''article.csv'' \<mapsto> unsafeIdFile)) ''article.csv''
      = [exampleArticle (Some (Num 9007199254740992))]"
    by (simp add: store_eval number_eval unsafeIdFile_def exampleArticle_def)
  have n: "plusOne (maxId [exampleArticle (Some (Num 9007199254740992))])
      = Num 9007199254740992"
    by (simp add: maxId_def exampleArticle_def number_eval)
  have l: "appendLine (exampleArticle (Some (Num 9007199254740992)))
      = Inr (js ''9007199254740992,3,T,B,t,draft,M,D,0'')"
    by (simp add: appendLine_def csvRow_def flagCell_def exampleArticle_def number_eval)
  have f: "\<not> truthyId (ArticleData.id_field (exampleArticle None))"
    by (simp add: exampleArticle_def)
  have "appendArticleToCSV (Map.empty(''article.csv'' \<mapsto> unsafeIdFile)) ''article.csv''
        (exampleArticle None)
       = (Inr (exampleArticle (Some (Num 9007199254740992))),
          Map.empty(''article.csv'' \<mapsto> unsafeIdFile
             @ js ''9007199254740992,3,T,B,t,draft,M,D,0'' @ [newline]))"
    unfolding appendArticleToCSV_def Let_def r n
    by (simp add: f exampleArticle_id l appendFile_def)
  with r show ?thesis by (simp add: exampleArticle_def)
qed

section \<open>Cells written without escaping\<close>

subsection \<open>A comma or a double quote in such a cell is not read back\<close>







subsection \<open>A line feed in such a cell splits the record\<close>








subsection \<open>The row of a typed record\<close>




lemma storable_verbatimCellsClean: "storable a \<Longrightarrow> verbatimCellsClean a"
  by (auto simp: verbatimCellsClean_def storable_def split: categoryId.splits option.splits)








section \<open>Further properties\<close>

lemma loop_sleeps:
  "[ms. Sleep ms \<leftarrow> snd (generateLoop g n i inputs)]
     = concat (map (\<lambda>(k, x). case g k x of
                                Inr a \<Rightarrow> if k < n - 1 then [2000] else []
                              | Inl m \<Rightarrow> [])
                   (zip [i ..< i + length inputs] inputs))"
proof (induction inputs arbitrary: i)
  case Nil
  then show ?case by simp
next
  case (Cons x xs)
  have "[i ..< i + length (x # xs)] = i # [Suc i ..< Suc i + length xs]"
    by (simp add: upt_rec)
  with Cons[of "Suc i"] show ?case
    by (cases "g i x") (simp_all add: split_beta)
qed

text \<open>
  For every sequence of tasks and every outcome of the generation calls,
  \<open>generateMultipleArticles\<close> calls \<open>generateArticle\<close> once for every task, in order,
  whatever the earlier calls did, and returns exactly the articles of the calls that
  succeeded, in order.
\<close>

theorem batch_calls_every_task_and_returns_the_successes:
  "fst (generateMultipleArticles g inputs)
     = concat (map (\<lambda>(k, x). case g k x of Inr a \<Rightarrow> [a] | Inl m \<Rightarrow> [])
                   (zip [0 ..< length inputs] inputs))
   \<and> [x. CallGenerate x \<leftarrow> snd (generateMultipleArticles g inputs)] = inputs"
  using loop_articles[of g "length inputs" 0 inputs] loop_calls[of g "length inputs" 0 inputs]
  by (simp add: generateMultipleArticles_def split_beta Let_def)

text \<open>
  The delays of \<open>generateMultipleArticles\<close>: one \<open>sleep(2000)\<close> after every call that
  succeeded, except at the last index; none after a call that failed.
\<close>

theorem batch_sleeps_after_successful_calls_only:
  "[ms. Sleep ms \<leftarrow> snd (generateMultipleArticles g inputs)]
     = concat (map (\<lambda>(k, x). case g k x of
                                Inr a \<Rightarrow> if k < length inputs - 1 then [2000] else []
                              | Inl m \<Rightarrow> [])
                   (zip [0 ..< length inputs] inputs))"
  using loop_sleeps[of g "length inputs" 0 inputs]
  by (simp add: generateMultipleArticles_def split_beta Let_def)

lemma mapThrowing_all:
  "\<forall>x \<in> set xs. f x = Inr (g x) \<Longrightarrow> mapThrowing f xs = Inr (map g xs)"
  by (induction xs) simp_all

lemma mapThrowing_some_error:
  "\<exists>x \<in> set xs. \<exists>e. f x = Inl e \<Longrightarrow> \<exists>x \<in> set xs. \<exists>e. f x = Inl e \<and> mapThrowing f xs = Inl e"
proof (induction xs)
  case Nil
  then show ?case by simp
next
  case (Cons x xs)
  show ?case
  proof (cases "f x")
    case (Inl e)
    then show ?thesis by auto
  next
    case (Inr y)
    with Cons.prems have "\<exists>x \<in> set xs. \<exists>e. f x = Inl e" by auto
    from Cons.IH[OF this] obtain x' e where "x' \<in> set xs" "f x' = Inl e" "mapThrowing f xs = Inl e"
      by blast
    with Inr show ?thesis by auto
  qed
qed

lemma map_of_map_value:
  "map_of (map (\<lambda>(k, v). (k, h v)) xs) k = map_option h (map_of xs k)"
  by (induction xs) auto

text \<open>
  For every catalog and every label that is not a property name inherited from
  \<open>Object.prototype\<close>: when the catalog holds every name of the static table, a label of
  the table resolves to the id of the first catalog entry of its name, and any other label
  is rejected with the message that lists the labels of the table; when a name of the
  table is missing from the catalog, the error names a missing name.
\<close>

theorem resolver_on_labels_that_are_not_inherited_names:
  assumes "personaCategory \<notin> set objectPrototypeKeys"
  shows "((\<forall>entry \<in> set PERSONA_TO_CATEGORY_NAME.
            \<exists>cat \<in> set categories. ArticleCategory.name cat = snd entry) \<longrightarrow>
          (case map_of PERSONA_TO_CATEGORY_NAME personaCategory of
             Some categoryName \<Rightarrow>
               \<exists>cat. find (\<lambda>c. ArticleCategory.name c = categoryName) categories = Some cat
                 \<and> getCategoryIdFromPersona (Inr categories) personaCategory
                     = Inr (CategoryNumber (ArticleCategory.id_field cat))
           | None \<Rightarrow>
               getCategoryIdFromPersona (Inr categories) personaCategory
                 = Inl (Error (personaNotFoundMessage personaCategory
                          (map fst PERSONA_TO_CATEGORY_NAME)))))
       \<and> (\<not> (\<forall>entry \<in> set PERSONA_TO_CATEGORY_NAME.
               \<exists>cat \<in> set categories. ArticleCategory.name cat = snd entry) \<longrightarrow>
          (\<exists>entry \<in> set PERSONA_TO_CATEGORY_NAME.
             snd entry \<notin> ArticleCategory.name ` set categories
             \<and> getCategoryIdFromPersona (Inr categories) personaCategory
                 = Inl (Error (categoryNotFoundMessage (snd entry) (fst entry)))))"
proof (intro conjI impI)
  let ?f = "\<lambda>(personaCategory, categoryName).
               case find (\<lambda>cat. ArticleCategory.name cat = categoryName) categories of
                 None \<Rightarrow> Inl (Error (categoryNotFoundMessage categoryName personaCategory))
               | Some category \<Rightarrow> Inr (personaCategory, ArticleCategory.id_field category)"
  let ?idOf = "\<lambda>categoryName.
               case find (\<lambda>cat. ArticleCategory.name cat = categoryName) categories of
                 None \<Rightarrow> 0 | Some category \<Rightarrow> ArticleCategory.id_field category"
  let ?g = "\<lambda>(personaCategory, categoryName). (personaCategory, ?idOf categoryName)"
  have gm: "getPersonaCategoryMapping (Inr categories)
      = mapThrowing ?f PERSONA_TO_CATEGORY_NAME"
    by (simp add: getPersonaCategoryMapping_def)
  {
    assume all: "\<forall>entry \<in> set PERSONA_TO_CATEGORY_NAME.
            \<exists>cat \<in> set categories. ArticleCategory.name cat = snd entry"
    have "\<forall>entry \<in> set PERSONA_TO_CATEGORY_NAME. ?f entry = Inr (?g entry)"
    proof
      fix entry assume "entry \<in> set PERSONA_TO_CATEGORY_NAME"
      with all obtain cat where "cat \<in> set categories" "ArticleCategory.name cat = snd entry"
        by blast
      then have "find (\<lambda>c. ArticleCategory.name c = snd entry) categories \<noteq> None"
        by (auto simp: find_None_iff)
      then show "?f entry = Inr (?g entry)" by (cases entry) auto
    qed
    then have m: "getPersonaCategoryMapping (Inr categories)
        = Inr (map ?g PERSONA_TO_CATEGORY_NAME)"
      unfolding gm by (rule mapThrowing_all)
    have mo: "map_of (map ?g PERSONA_TO_CATEGORY_NAME) personaCategory
        = map_option ?idOf (map_of PERSONA_TO_CATEGORY_NAME personaCategory)"
      by (rule map_of_map_value)
    have keys: "map fst (map ?g PERSONA_TO_CATEGORY_NAME) = map fst PERSONA_TO_CATEGORY_NAME"
      by (simp add: split_beta)
    show "case map_of PERSONA_TO_CATEGORY_NAME personaCategory of
             Some categoryName \<Rightarrow>
               \<exists>cat. find (\<lambda>c. ArticleCategory.name c = categoryName) categories = Some cat
                 \<and> getCategoryIdFromPersona (Inr categories) personaCategory
                     = Inr (CategoryNumber (ArticleCategory.id_field cat))
           | None \<Rightarrow>
               getCategoryIdFromPersona (Inr categories) personaCategory
                 = Inl (Error (personaNotFoundMessage personaCategory
                          (map fst PERSONA_TO_CATEGORY_NAME)))"
    proof (cases "map_of PERSONA_TO_CATEGORY_NAME personaCategory")
      case None
      with assms show ?thesis
        by (simp add: getCategoryIdFromPersona_def m mo keys del: map_map)
    next
      case (Some categoryName)
      then have "(personaCategory, categoryName) \<in> set PERSONA_TO_CATEGORY_NAME"
        by (rule map_of_SomeD)
      with all obtain c0 where "c0 \<in> set categories" "ArticleCategory.name c0 = categoryName"
        by force
      then obtain cat where cat: "find (\<lambda>c. ArticleCategory.name c = categoryName) categories = Some cat"
        by (cases "find (\<lambda>c. ArticleCategory.name c = categoryName) categories")
           (auto simp: find_None_iff)
      with Some show ?thesis
        by (simp add: getCategoryIdFromPersona_def m mo del: map_map)
    qed
  }
  {
    assume "\<not> (\<forall>entry \<in> set PERSONA_TO_CATEGORY_NAME.
               \<exists>cat \<in> set categories. ArticleCategory.name cat = snd entry)"
    then obtain entry where en: "entry \<in> set PERSONA_TO_CATEGORY_NAME"
        "\<forall>cat \<in> set categories. ArticleCategory.name cat \<noteq> snd entry"
      by blast
    then have "find (\<lambda>c. ArticleCategory.name c = snd entry) categories = None"
      by (simp add: find_None_iff)
    then have "?f entry = Inl (Error (categoryNotFoundMessage (snd entry) (fst entry)))"
      by (cases entry) simp
    with en(1) have "\<exists>x \<in> set PERSONA_TO_CATEGORY_NAME. \<exists>e. ?f x = Inl e" by blast
    from mapThrowing_some_error[OF this] obtain x e where x:
      "x \<in> set PERSONA_TO_CATEGORY_NAME" "?f x = Inl e"
      "mapThrowing ?f PERSONA_TO_CATEGORY_NAME = Inl e"
      by blast
    from x(2) have "find (\<lambda>c. ArticleCategory.name c = snd x) categories = None
        \<and> e = Error (categoryNotFoundMessage (snd x) (fst x))"
      by (cases x) (auto split: option.splits)
    then have "snd x \<notin> ArticleCategory.name ` set categories"
      and "e = Error (categoryNotFoundMessage (snd x) (fst x))"
      by (auto simp: find_None_iff)
    with x(1,3) show "\<exists>entry \<in> set PERSONA_TO_CATEGORY_NAME.
             snd entry \<notin> ArticleCategory.name ` set categories
             \<and> getCategoryIdFromPersona (Inr categories) personaCategory
                 = Inl (Error (categoryNotFoundMessage (snd entry) (fst entry)))"
      by (auto simp: getCategoryIdFromPersona_def gm)
  }
qed

text \<open>The example of the specification, and a label outside the table.\<close>

theorem resolver_witness:
  "js ''x'' \<notin> set objectPrototypeKeys
   \<and> list_all (\<lambda>entry. list_ex (\<lambda>cat. ArticleCategory.name cat = snd entry) exampleCatalog)
        PERSONA_TO_CATEGORY_NAME
   \<and> map_of PERSONA_TO_CATEGORY_NAME (js ''x'') = None
   \<and> getCategoryIdFromPersona (Inr exampleCatalog) (js ''x'')
       = Inl (Error (personaNotFoundMessage (js ''x'') (map fst PERSONA_TO_CATEGORY_NAME)))"
proof -
  have k: "js ''x'' \<notin> set objectPrototypeKeys"
    by (simp add: objectPrototypeKeys_def js_def)
  have a: "list_all (\<lambda>entry. list_ex (\<lambda>cat. ArticleCategory.name cat = snd entry) exampleCatalog)
        PERSONA_TO_CATEGORY_NAME"
    by (simp add: PERSONA_TO_CATEGORY_NAME_def exampleCatalog_def)
  then have a': "\<forall>entry \<in> set PERSONA_TO_CATEGORY_NAME.
            \<exists>cat \<in> set exampleCatalog. ArticleCategory.name cat = snd entry"
    by (simp add: list_all_iff list_ex_iff)
  have n: "map_of PERSONA_TO_CATEGORY_NAME (js ''x'') = None"
    by (simp add: PERSONA_TO_CATEGORY_NAME_def js_def)
  from resolver_on_labels_that_are_not_inherited_names[OF k, of exampleCatalog] a' n
  have "getCategoryIdFromPersona (Inr exampleCatalog) (js ''x'')
       = Inl (Error (personaNotFoundMessage (js ''x'') (map fst PERSONA_TO_CATEGORY_NAME)))"
    by simp
  with k a n show ?thesis by (intro conjI)
qed

end
